theory Spec2Isabelle
  imports Main "HOL-Library.AList"
begin

section \<open>The method router (DefaultServerHandler)\<close>

text \<open>
  The router of the server keeps, for every registered URL pattern, a verb-dispatch node
  (\<open>defaultHTTPHandler\<close>) that maps an HTTP verb to a handler. In the Go source a node is a
  heap object: one pointer to it is stored in the router's own table and the same pointer
  is given to the path matcher (\<open>http.ServeMux\<close>), so a verb added to the node later is
  seen by both. The model keeps that sharing: nodes live in a store indexed by references
  (natural numbers), and both tables hold references.

  User handlers (\<open>http.Handler\<close> values) are opaque: they are values of a type variable,
  and serving a request answers which handler the request is delegated to.
\<close>

datatype panic = Panic string

text \<open>Of a request, the fields that the router and the path matcher read:
  \<open>r.Method\<close>, \<open>r.Host\<close>, \<open>r.RequestURI\<close> and \<open>r.URL.Path\<close>.\<close>

record request =
  Method :: string
  Host :: string
  RequestURI :: string
  Path :: string

text \<open>
  The answers: \<open>http.Error(w, text, code)\<close>, a redirect to a path with a status code,
  a bare \<open>w.WriteHeader(code)\<close>, and the call of a user handler.
\<close>

datatype 'h response =
    HttpError string nat
  | Redirect string nat
  | WriteHeader nat
  | Delegated 'h

text \<open>\<open>type defaultHTTPHandler struct { handlers map[string]http.Handler }\<close>\<close>

record 'h defaultHTTPHandler =
  handlers :: "string \<rightharpoonup> 'h"

definition newHTTPHandler :: "'h defaultHTTPHandler" where
  "newHTTPHandler = \<lparr>handlers = Map.empty\<rparr>"

definition StatusMovedPermanently :: nat where
  "StatusMovedPermanently = 301"

definition StatusBadRequest :: nat where
  "StatusBadRequest = 400"

definition StatusNotFound :: nat where
  "StatusNotFound = 404"

definition StatusMethodNotAllowed :: nat where
  "StatusMethodNotAllowed = 405"

text \<open>\<open>defaultHTTPHandler.ServeHTTP\<close>: look the request's verb up in the node.\<close>

definition node_ServeHTTP :: "'h defaultHTTPHandler \<Rightarrow> request \<Rightarrow> 'h response" where
  "node_ServeHTTP handler r =
     (case handlers handler (Method r) of
        None \<Rightarrow> HttpError ''405 method not allowed'' StatusMethodNotAllowed
      | Some h \<Rightarrow> Delegated h)"

subsection \<open>The path matcher\<close>

text \<open>
  \<open>http.ServeMux\<close> belongs to Go's standard library, not to this repository; the router
  calls its \<open>Handle\<close> and its \<open>ServeHTTP\<close>. It is modelled after the library of the
  repository's time (2015), function by function: \<open>ServeMux.Handle\<close>, \<open>pathMatch\<close>,
  \<open>cleanPath\<close>, \<open>ServeMux.match\<close>, \<open>ServeMux.handler\<close>, \<open>ServeMux.Handler\<close> and
  \<open>ServeMux.ServeHTTP\<close>.

  A handler in the table of the path matcher is a verb-dispatch node of the router (by
  its reference), or the library's redirect handler (target and status code); the
  library's not-found handler is what \<open>ServeMux.handler\<close> answers when nothing matches.
\<close>

datatype mux_handler =
    NodeRef nat
  | RedirectHandler string nat
  | NotFoundHandler

text \<open>\<open>type muxEntry struct { explicit bool; h Handler; pattern string }\<close>\<close>

record muxEntry =
  explicit :: bool
  entry_h :: mux_handler
  entry_pattern :: string

text \<open>\<open>type ServeMux struct { m map[string]muxEntry; hosts bool }\<close>. The map is a list
  of keys and entries in which no key occurs twice.\<close>

record ServeMux =
  mux_m :: "(string \<times> muxEntry) list"
  hosts :: bool

definition NewServeMux :: ServeMux where
  "NewServeMux = \<lparr>mux_m = [], hosts = False\<rparr>"

text \<open>\<open>mux.m[pattern].explicit\<close>; a key that is not in the map gives \<open>false\<close>.\<close>

definition is_explicit :: "(string \<times> muxEntry) list \<Rightarrow> string \<Rightarrow> bool" where
  "is_explicit m pattern = (case map_of m pattern of Some e \<Rightarrow> explicit e | None \<Rightarrow> False)"

text \<open>
  \<open>ServeMux.Handle\<close>. It panics on the empty pattern and on a pattern that was
  registered before; otherwise it enters the pattern and, for a pattern \<open>/tree/\<close>, an
  implicit permanent redirect for \<open>/tree\<close> unless \<open>/tree\<close> was registered itself. (The
  library's third panic, on a \<open>nil\<close> handler, cannot occur: the router passes a node it has
  just allocated.) Later releases of the library reject further patterns, by syntax and by
  conflict with the registered ones; those checks are the parameter \<open>check\<close>, which
  answers the text of the panic for a pattern it rejects. For the library of the
  repository's time, \<open>check\<close> rejects nothing.
\<close>

definition ServeMux_Handle ::
  "(ServeMux \<Rightarrow> string \<Rightarrow> string option) \<Rightarrow> string \<Rightarrow> mux_handler \<Rightarrow> ServeMux \<Rightarrow>
     panic + ServeMux" where
  "ServeMux_Handle check pattern handler mux =
     (if pattern = [] then Inl (Panic (''http: invalid pattern '' @ pattern))
      else case check mux pattern of
        Some msg \<Rightarrow> Inl (Panic msg)
      | None \<Rightarrow>
          if is_explicit (mux_m mux) pattern
          then Inl (Panic (''http: multiple registrations for '' @ pattern))
          else
            (let m1 = AList.update pattern
                        \<lparr>explicit = True, entry_h = handler, entry_pattern = pattern\<rparr> (mux_m mux);
                 hosts1 = (hosts mux \<or> hd pattern \<noteq> CHR ''/'');
                 n = length pattern;
                 m2 = (if pattern ! (n - 1) = CHR ''/'' \<and> \<not> is_explicit m1 (take (n - 1) pattern)
                       then
                         (let path = (if hd pattern \<noteq> CHR ''/''
                                      then dropWhile (\<lambda>c. c \<noteq> CHR ''/'') pattern
                                      else pattern)
                          in AList.update (take (n - 1) pattern)
                               \<lparr>explicit = False,
                                entry_h = RedirectHandler path StatusMovedPermanently,
                                entry_pattern = pattern\<rparr> m1)
                       else m1)
             in Inr \<lparr>mux_m = m2, hosts = hosts1\<rparr>))"

text \<open>The table of the path matcher after \<open>ServeMux.Handle\<close> has entered a pattern.\<close>

definition entered :: "string \<Rightarrow> mux_handler \<Rightarrow> ServeMux \<Rightarrow> ServeMux" where
  "entered pattern handler mux =
     (let m1 = AList.update pattern
                 \<lparr>explicit = True, entry_h = handler, entry_pattern = pattern\<rparr> (mux_m mux);
          n = length pattern
      in \<lparr>mux_m =
            (if pattern ! (n - 1) = CHR ''/'' \<and> \<not> is_explicit m1 (take (n - 1) pattern)
             then AList.update (take (n - 1) pattern)
                    \<lparr>explicit = False,
                     entry_h = RedirectHandler
                       (if hd pattern \<noteq> CHR ''/'' then dropWhile (\<lambda>c. c \<noteq> CHR ''/'') pattern
                        else pattern) StatusMovedPermanently,
                     entry_pattern = pattern\<rparr> m1
             else m1),
          hosts = (hosts mux \<or> hd pattern \<noteq> CHR ''/'')\<rparr>)"

definition no_check :: "ServeMux \<Rightarrow> string \<Rightarrow> string option" where
  "no_check mux pattern = None"

text \<open>The library's \<open>pathMatch\<close>: a pattern that ends with a slash matches the paths it
  is a prefix of, any other pattern matches itself only.\<close>

definition pathMatch :: "string \<Rightarrow> string \<Rightarrow> bool" where
  "pathMatch pattern path =
     (if length pattern = 0 then False
      else let n = length pattern in
        if pattern ! (n - 1) \<noteq> CHR ''/'' then pattern = path
        else length path \<ge> n \<and> take n path = pattern)"

text \<open>
  \<open>path.Clean\<close> on a rooted path, which is all that \<open>cleanPath\<close> gives it: the elements
  between the slashes are read from the left; an empty element and \<open>.\<close> are dropped,
  \<open>..\<close> drops the element before it, if there is one, and the elements that remain are
  joined behind the root.
\<close>

fun split_slash :: "string \<Rightarrow> string list" where
  "split_slash [] = [[]]"
| "split_slash (c # cs) =
     (if c = CHR ''/'' then [] # split_slash cs
      else (case split_slash cs of [] \<Rightarrow> [[c]] | w # ws \<Rightarrow> (c # w) # ws))"

fun clean_elements :: "string list \<Rightarrow> string list \<Rightarrow> string list" where
  "clean_elements [] kept = kept"
| "clean_elements (e # es) kept =
     (if e = [] \<or> e = ''.'' then clean_elements es kept
      else if e = ''..'' then clean_elements es (case kept of [] \<Rightarrow> [] | _ # t \<Rightarrow> t)
      else clean_elements es (e # kept))"

fun join_slash :: "string list \<Rightarrow> string" where
  "join_slash [] = []"
| "join_slash [e] = e"
| "join_slash (e # es) = e @ ''/'' @ join_slash es"

definition path_Clean :: "string \<Rightarrow> string" where
  "path_Clean p = ''/'' @ join_slash (rev (clean_elements (split_slash p) []))"

text \<open>The library's \<open>cleanPath\<close>.\<close>

definition cleanPath :: "string \<Rightarrow> string" where
  "cleanPath p =
     (if p = [] then ''/''
      else
        (let p1 = (if hd p \<noteq> CHR ''/'' then CHR ''/'' # p else p);
             np = path_Clean p1
         in if last p1 = CHR ''/'' \<and> np \<noteq> ''/'' then np @ ''/'' else np))"

text \<open>
  \<open>ServeMux.match\<close>: the loop over the map keeps the handler of the longest key that
  matches. Which paths a key matches is the first argument, so that what is proved of
  serving holds for every matching relation; the library's own is \<open>pathMatch\<close>. The
  result \<open>None\<close> is the source's \<open>h == nil\<close>.
\<close>

fun match_loop ::
  "(string \<Rightarrow> string \<Rightarrow> bool) \<Rightarrow> (string \<times> muxEntry) list \<Rightarrow> string \<Rightarrow>
     (mux_handler \<times> string) option \<Rightarrow> nat \<Rightarrow> (mux_handler \<times> string) option" where
  "match_loop pm [] path found n = found"
| "match_loop pm ((k, v) # es) path found n =
     (if \<not> pm k path then match_loop pm es path found n
      else if found = None \<or> length k > n
           then match_loop pm es path (Some (entry_h v, entry_pattern v)) (length k)
           else match_loop pm es path found n)"

definition mux_match ::
  "(string \<Rightarrow> string \<Rightarrow> bool) \<Rightarrow> ServeMux \<Rightarrow> string \<Rightarrow> (mux_handler \<times> string) option" where
  "mux_match pm mux path = match_loop pm (mux_m mux) path None 0"

text \<open>\<open>ServeMux.handler(host, path)\<close>: a pattern with a host name is tried first.\<close>

definition ServeMux_handler ::
  "(string \<Rightarrow> string \<Rightarrow> bool) \<Rightarrow> ServeMux \<Rightarrow> string \<Rightarrow> string \<Rightarrow> mux_handler \<times> string" where
  "ServeMux_handler pm mux host path =
     (let found = (if hosts mux then mux_match pm mux (host @ path) else None);
          found = (case found of None \<Rightarrow> mux_match pm mux path | Some x \<Rightarrow> Some x)
      in case found of None \<Rightarrow> (NotFoundHandler, []) | Some x \<Rightarrow> x)"

text \<open>\<open>ServeMux.Handler(r)\<close>: a request whose path is not clean is answered by a
  permanent redirect to the clean path, unless its verb is CONNECT. The redirect's
  target is given by its path.\<close>

definition ServeMux_Handler ::
  "(string \<Rightarrow> string \<Rightarrow> bool) \<Rightarrow> ServeMux \<Rightarrow> request \<Rightarrow> mux_handler \<times> string" where
  "ServeMux_Handler pm mux r =
     (if Method r \<noteq> ''CONNECT'' \<and> cleanPath (Path r) \<noteq> Path r
      then (RedirectHandler (cleanPath (Path r)) StatusMovedPermanently,
            snd (ServeMux_handler pm mux (Host r) (cleanPath (Path r))))
      else ServeMux_handler pm mux (Host r) (Path r))"

subsection \<open>The router\<close>

text \<open>
  \<open>type DefaultServerHandler struct { ServeMux *http.ServeMux; pathPrefix string;
  handlers map[string]*defaultHTTPHandler }\<close>. The field \<open>handlers\<close> is named
  \<open>pattern_handlers\<close> here (the node's field has the name already); \<open>store\<close> and
  \<open>next_ref\<close> are the heap of nodes and the next unused reference.
\<close>

record 'h DefaultServerHandler =
  ServeMux :: ServeMux
  pathPrefix :: string
  pattern_handlers :: "string \<rightharpoonup> nat"
  store :: "nat \<Rightarrow> 'h defaultHTTPHandler"
  next_ref :: nat

definition NewServerHandler :: "'h DefaultServerHandler" where
  "NewServerHandler =
     \<lparr>ServeMux = NewServeMux, pathPrefix = [], pattern_handlers = Map.empty,
      store = (\<lambda>_. newHTTPHandler), next_ref = 0\<rparr>"

text \<open>
  \<open>DefaultServerHandler.ServeHTTP\<close> hands the request to \<open>ServeMux.ServeHTTP\<close>, which
  answers 400 to the request URI \<open>*\<close> and otherwise calls the handler that
  \<open>ServeMux.Handler\<close> gives: a node of the router, the redirect handler or the not-found
  handler.
\<close>

definition ServeHTTP ::
  "(string \<Rightarrow> string \<Rightarrow> bool) \<Rightarrow> 'h DefaultServerHandler \<Rightarrow> request \<Rightarrow> 'h response" where
  "ServeHTTP pm serverHandler r =
     (if RequestURI r = ''*'' then WriteHeader StatusBadRequest
      else case fst (ServeMux_Handler pm (ServeMux serverHandler) r) of
             NodeRef h \<Rightarrow> node_ServeHTTP (store serverHandler h) r
           | RedirectHandler url code \<Rightarrow> Redirect url code
           | NotFoundHandler \<Rightarrow> HttpError ''404 page not found'' StatusNotFound)"

text \<open>\<open>DefaultServerHandler.Handle\<close>. A panic of the source, its own or the path
  matcher's, is the \<open>Inl\<close> result.\<close>

definition Handle ::
  "(ServeMux \<Rightarrow> string \<Rightarrow> string option) \<Rightarrow> string \<Rightarrow> string \<Rightarrow> 'h \<Rightarrow>
     'h DefaultServerHandler \<Rightarrow> panic + 'h DefaultServerHandler" where
  "Handle check method pattern0 handler serverHandler =
     (let pattern = pathPrefix serverHandler @ pattern0 in
      case pattern_handlers serverHandler pattern of
        Some h \<Rightarrow>
          (case handlers (store serverHandler h) method of
             Some _ \<Rightarrow> Inl (Panic (''http: multiple registrations for '' @ pattern))
           | None \<Rightarrow>
               Inr (serverHandler\<lparr>store := (store serverHandler)
                      (h := (store serverHandler h)
                         \<lparr>handlers := (handlers (store serverHandler h))(method \<mapsto> handler)\<rparr>)\<rparr>))
      | None \<Rightarrow>
          (let h = next_ref serverHandler;
               node = newHTTPHandler\<lparr>handlers := (handlers newHTTPHandler)(method \<mapsto> handler)\<rparr>
           in case ServeMux_Handle check pattern (NodeRef h) (ServeMux serverHandler) of
                Inl p \<Rightarrow> Inl p
              | Inr mux \<Rightarrow>
                  Inr (serverHandler\<lparr>next_ref := Suc h,
                                     store := (store serverHandler)(h := node),
                                     ServeMux := mux,
                                     pattern_handlers := (pattern_handlers serverHandler)(pattern \<mapsto> h)\<rparr>)))"

text \<open>\<open>DefaultServerHandler.PathPrefix\<close> and \<open>SetPathPrefix\<close>.\<close>

definition PathPrefix :: "'h DefaultServerHandler \<Rightarrow> string" where
  "PathPrefix server = pathPrefix server"

definition SetPathPrefix :: "string \<Rightarrow> 'h DefaultServerHandler \<Rightarrow> 'h DefaultServerHandler" where
  "SetPathPrefix prefix server =
     (let l = length prefix in
      if l > 0 \<and> prefix ! (l - 1) = CHR ''/''
      then server\<lparr>pathPrefix := take (l - 1) prefix\<rparr>
      else server\<lparr>pathPrefix := prefix\<rparr>)"

text \<open>
  The states the router can be in when only its own operations touch it: the path
  matcher holds every pattern of the router's table, as an explicit entry with the same
  node; every other entry of the path matcher is an implicit redirect; every node in use
  was allocated, and no two patterns share a node.
\<close>

definition router_inv :: "'h DefaultServerHandler \<Rightarrow> bool" where
  "router_inv sh \<longleftrightarrow>
     distinct (map fst (mux_m (ServeMux sh))) \<and>
     (\<forall>k h. pattern_handlers sh k = Some h \<longrightarrow>
        map_of (mux_m (ServeMux sh)) k =
          Some \<lparr>explicit = True, entry_h = NodeRef h, entry_pattern = k\<rparr>) \<and>
     (\<forall>k e. map_of (mux_m (ServeMux sh)) k = Some e \<and> pattern_handlers sh k = None \<longrightarrow>
        \<not> explicit e \<and> (\<exists>url. entry_h e = RedirectHandler url StatusMovedPermanently)) \<and>
     (\<forall>k h. pattern_handlers sh k = Some h \<longrightarrow> h < next_ref sh) \<and>
     (\<forall>k k' h. pattern_handlers sh k = Some h \<and> pattern_handlers sh k' = Some h \<longrightarrow> k = k')"

text \<open>
  A request that the path matcher serves by its path as it is: its request URI is not
  \<open>*\<close>, and its path is clean or its verb is CONNECT. A key of the path matcher matches
  a request when it matches the host followed by the path, if some pattern has a host
  name, or the path.
\<close>

definition direct :: "request \<Rightarrow> bool" where
  "direct r \<longleftrightarrow>
     RequestURI r \<noteq> ''*'' \<and> (Method r = ''CONNECT'' \<or> cleanPath (Path r) = Path r)"

definition key_matches :: "(string \<Rightarrow> string \<Rightarrow> bool) \<Rightarrow> ServeMux \<Rightarrow> request \<Rightarrow> string \<Rightarrow> bool" where
  "key_matches pm mux r k \<longleftrightarrow> (hosts mux \<and> pm k (Host r @ Path r)) \<or> pm k (Path r)"

text \<open>What the specification's words say of the prefix: every trailing slash is gone.\<close>

definition strip_trailing_slashes :: "string \<Rightarrow> string" where
  "strip_trailing_slashes s = rev (dropWhile (\<lambda>c. c = CHR ''/'') (rev s))"

section \<open>Component dispatch (ServerEnvironment)\<close>

text \<open>
  A component is any value registered with the environment (\<open>interface{}\<close> in the
  source). The dispatcher itself looks at a component in two ways only: the type
  assertion \<open>component.(Resource)\<close> of \<open>logResources\<close>, which gives access to \<open>Method()\<close>
  and \<open>Path()\<close>, and the dynamic type that the format verb \<open>%T\<close> prints. The declaration
  of the interface \<open>Resource\<close> is not among the source files; a component is therefore
  modelled by what those two uses read: \<open>Resource t m p\<close> is a value of dynamic type \<open>t\<close>
  that implements \<open>Resource\<close> with verb \<open>m\<close> and path \<open>p\<close>, \<open>Plain t\<close> is a value of type
  \<open>t\<close> that does not implement it.
\<close>

datatype component =
    Resource string string string
  | Plain string

text \<open>
  The effects of dispatch that can be observed from outside: a call of a resource
  handler's \<open>Handle\<close> (its position in the chain, the component, the answer) and the two
  log lines of the source, \<open>Warn("Could not handle %[1]v (%[1]T)", component)\<close> and
  \<open>Info("resources =\n\n%s", buf.String())\<close>.
\<close>

datatype event =
    HandlerCall nat component bool
  | LogWarn component
  | LogInfo string

text \<open>
  \<open>ResourceHandler\<close> is an interface with the one method \<open>Handle(interface{}) bool\<close>. Its
  implementations are not among the source files; a handler is any function that
  answers whether it claims the component and may change the router it wires routes
  into. A handler that panics ends the process; handlers are taken to return.
\<close>

type_synonym 'h ResourceHandler =
  "component \<Rightarrow> 'h DefaultServerHandler \<Rightarrow> bool \<times> 'h DefaultServerHandler"

text \<open>
  \<open>type ServerEnvironment struct { ServerHandler ServerHandler; components []interface{};
  resourceHandlers []ResourceHandler }\<close>. The field \<open>ServerHandler\<close> is \<open>nil\<close> in the
  environment that \<open>NewServerEnvironment\<close> returns; \<open>BuildServer\<close> sets it, to a
  \<open>DefaultServerHandler\<close> unless the factory was given another, before the starting
  transition. The environment is modelled from then on: the field holds a router.
  \<open>trace\<close> collects the events.
\<close>

record 'h ServerEnvironment =
  ServerHandler :: "'h DefaultServerHandler"
  components :: "component list"
  resourceHandlers :: "'h ResourceHandler list"
  trace :: "event list"

definition Register :: "component list \<Rightarrow> 'h ServerEnvironment \<Rightarrow> 'h ServerEnvironment" where
  "Register component env = env\<lparr>components := components env @ component\<rparr>"

definition AddResourceHandler ::
  "'h ResourceHandler list \<Rightarrow> 'h ServerEnvironment \<Rightarrow> 'h ServerEnvironment" where
  "AddResourceHandler handler env = env\<lparr>resourceHandlers := resourceHandlers env @ handler\<rparr>"

text \<open>
  \<open>ServerEnvironment.handle\<close>: \<open>for i := len(env.resourceHandlers) - 1; i >= 0; i--\<close>.
  The first argument of the loop is \<open>i + 1\<close>, so that the loop ends at \<open>0\<close>.
\<close>

fun handle_loop :: "nat \<Rightarrow> component \<Rightarrow> 'h ServerEnvironment \<Rightarrow> 'h ServerEnvironment" where
  "handle_loop 0 component env = env\<lparr>trace := trace env @ [LogWarn component]\<rparr>"
| "handle_loop (Suc i) component env =
     (case (resourceHandlers env ! i) component (ServerHandler env) of
        (ok, sh) \<Rightarrow>
          (let env' = env\<lparr>ServerHandler := sh, trace := trace env @ [HandlerCall i component ok]\<rparr>
           in if ok then env' else handle_loop i component env'))"

definition handle :: "component \<Rightarrow> 'h ServerEnvironment \<Rightarrow> 'h ServerEnvironment" where
  "handle component env = handle_loop (length (resourceHandlers env)) component env"

text \<open>
  \<open>fmt.Fprintf(&buf, "    %-7s %s%s (%T)\n", ...)\<close>: the verb is padded with spaces on
  the right to a width of seven, and \<open>fmt\<close> measures the width of a string by
  \<open>utf8.RuneCountInString\<close>. That function reads the bytes from the left and counts one
  for a byte below 128, for a well-formed sequence of two, three or four bytes, and for
  every byte that begins no such sequence.
\<close>

fun rune_size :: "string \<Rightarrow> nat" where
  "rune_size [] = 0"
| "rune_size (c # cs) =
     (let b = (of_char c :: nat) in
      if b < 128 then 1
      else if b < 194 \<or> 244 < b then 1
      else
        (let size = (if b < 224 then 2 else if b < 240 then 3 else (4::nat));
             lo = (if b = 224 then 160 else if b = 240 then 144 else (128::nat));
             hi = (if b = 237 then 159 else if b = 244 then 143 else (191::nat))
         in if length (c # cs) < size then 1
            else if of_char (cs ! 0) < lo \<or> hi < of_char (cs ! 0) then 1
            else if size = 2 then 2
            else if (of_char (cs ! 1) :: nat) < 128 \<or> (191::nat) < of_char (cs ! 1) then 1
            else if size = 3 then 3
            else if (of_char (cs ! 2) :: nat) < 128 \<or> (191::nat) < of_char (cs ! 2) then 1
            else 4))"

fun count_runes :: "nat \<Rightarrow> string \<Rightarrow> nat" where
  "count_runes skip [] = 0"
| "count_runes 0 (c # cs) = Suc (count_runes (rune_size (c # cs) - 1) cs)"
| "count_runes (Suc skip) (c # cs) = count_runes skip cs"

definition RuneCountInString :: "string \<Rightarrow> nat" where
  "RuneCountInString s = count_runes 0 s"

definition newline :: char where
  "newline = CHR 0x0A"

definition pad7 :: "string \<Rightarrow> string" where
  "pad7 s = s @ replicate (7 - RuneCountInString s) CHR '' ''"

definition format_resource :: "string \<Rightarrow> string \<Rightarrow> string \<Rightarrow> string \<Rightarrow> string" where
  "format_resource method prefix path ty =
     ''    '' @ pad7 method @ '' '' @ prefix @ path @ '' ('' @ ty @ '')'' @ [newline]"

fun logResources_loop :: "string \<Rightarrow> component list \<Rightarrow> string \<Rightarrow> string" where
  "logResources_loop prefix [] buf = buf"
| "logResources_loop prefix (Resource ty m p # cs) buf =
     logResources_loop prefix cs (buf @ format_resource m prefix p ty)"
| "logResources_loop prefix (Plain ty # cs) buf = logResources_loop prefix cs buf"

definition logResources :: "'h ServerEnvironment \<Rightarrow> 'h ServerEnvironment" where
  "logResources env =
     env\<lparr>trace := trace env @
       [LogInfo (''resources ='' @ [newline, newline] @
          logResources_loop (PathPrefix (ServerHandler env)) (components env) [])]\<rparr>"

text \<open>\<open>ServerEnvironment.onStarting\<close>: the loop over the components, then the listing.
  \<open>dispatch_all\<close> is the loop alone.\<close>

definition dispatch_all :: "'h ServerEnvironment \<Rightarrow> 'h ServerEnvironment" where
  "dispatch_all env = foldl (\<lambda>e component. handle component e) env (components env)"

definition onStarting :: "'h ServerEnvironment \<Rightarrow> 'h ServerEnvironment" where
  "onStarting env = logResources (dispatch_all env)"

subsection \<open>The dispatch the specification describes\<close>

text \<open>
  The specification's words, as a second definition to compare the source with: the
  chain is walked from the most recently added handler to the earliest one, the first
  handler that claims the component ends the walk, and a component that no handler
  claims is logged. The chain is given with the positions of the handlers.
\<close>

fun walk_chain ::
  "(nat \<times> 'h ResourceHandler) list \<Rightarrow> component \<Rightarrow> 'h DefaultServerHandler \<Rightarrow>
     'h DefaultServerHandler \<times> event list" where
  "walk_chain [] c sh = (sh, [LogWarn c])"
| "walk_chain ((i, h) # hs) c sh =
     (case h c sh of
        (True, sh') \<Rightarrow> (sh', [HandlerCall i c True])
      | (False, sh') \<Rightarrow>
          (case walk_chain hs c sh' of (sh'', evs) \<Rightarrow> (sh'', HandlerCall i c False # evs)))"

definition most_recent_first :: "'a list \<Rightarrow> (nat \<times> 'a) list" where
  "most_recent_first hs = rev (enumerate 0 hs)"

fun dispatch_spec ::
  "(nat \<times> 'h ResourceHandler) list \<Rightarrow> component list \<Rightarrow> 'h DefaultServerHandler \<Rightarrow>
     'h DefaultServerHandler \<times> event list" where
  "dispatch_spec chain [] sh = (sh, [])"
| "dispatch_spec chain (c # cs) sh =
     (case walk_chain chain c sh of
        (sh', evs) \<Rightarrow>
          (case dispatch_spec chain cs sh' of (sh'', evs') \<Rightarrow> (sh'', evs @ evs')))"

text \<open>The outcome events of a trace: a claim, or the warning of an unclaimed component.\<close>

fun outcome_of :: "event \<Rightarrow> (component \<times> nat option) option" where
  "outcome_of (HandlerCall i c True) = Some (c, Some i)"
| "outcome_of (HandlerCall i c False) = None"
| "outcome_of (LogWarn c) = Some (c, None)"
| "outcome_of (LogInfo s) = None"

definition outcomes :: "event list \<Rightarrow> (component \<times> nat option) list" where
  "outcomes evs = List.map_filter outcome_of evs"

text \<open>The entries of the endpoint listing: verb, full path, type name.\<close>

fun resource_entry :: "string \<Rightarrow> component \<Rightarrow> (string \<times> string \<times> string) option" where
  "resource_entry prefix (Resource ty m p) = Some (m, prefix @ p, ty)"
| "resource_entry prefix (Plain ty) = None"

definition format_entry :: "string \<times> string \<times> string \<Rightarrow> string" where
  "format_entry e = (case e of (m, full, ty) \<Rightarrow>
     ''    '' @ pad7 m @ '' '' @ full @ '' ('' @ ty @ '')'' @ [newline])"

definition listing_of :: "(string \<times> string \<times> string) list \<Rightarrow> event" where
  "listing_of es = LogInfo (''resources ='' @ [newline, newline] @ concat (map format_entry es))"

text \<open>A component is claimed in a trace when some handler answered \<open>true\<close> for it.\<close>

definition claimed :: "event list \<Rightarrow> component \<Rightarrow> bool" where
  "claimed evs c \<longleftrightarrow> (\<exists>i. HandlerCall i c True \<in> set evs)"

section \<open>The managed server (DefaultServer)\<close>

text \<open>
  A connector holds its listener, \<open>nil\<close> before \<open>Start\<close>. The listener is an object of
  the operating system's network layer: closing it is the external call
  \<open>listener.Close()\<close>, which answers an error or \<open>nil\<close> and changes the state of the
  network layer, not the connector. The call is the parameter \<open>close\<close> of the model;
  \<open>'l\<close> is the type of listeners, \<open>'x\<close> the state of the network layer, \<open>'e\<close> the type of
  errors.
\<close>

record 'l DefaultServerConnector =
  Addr :: string
  listener :: "'l option"

record 'l DefaultServer =
  Connectors :: "'l DefaultServerConnector list"

definition NewServer :: "'l DefaultServer" where
  "NewServer = \<lparr>Connectors = []\<rparr>"

text \<open>\<open>DefaultServerConnector.Stop\<close>.\<close>

definition connector_Stop ::
  "('l \<Rightarrow> 'x \<Rightarrow> 'e option \<times> 'x) \<Rightarrow> 'l DefaultServerConnector \<Rightarrow> 'x \<Rightarrow> 'e option \<times> 'x" where
  "connector_Stop close connector x =
     (case listener connector of
        Some l \<Rightarrow> close l x
      | None \<Rightarrow> (None, x))"

text \<open>\<open>DefaultServer.Stop\<close>: the loop over the connectors, which collects the warnings
  \<open>logger.Warn("error closing connector: %v", err)\<close>, and the final \<open>return nil\<close>.\<close>

fun Stop_loop ::
  "('l \<Rightarrow> 'x \<Rightarrow> 'e option \<times> 'x) \<Rightarrow> 'l DefaultServerConnector list \<Rightarrow> 'x \<Rightarrow> 'e list \<Rightarrow>
     'x \<times> 'e list" where
  "Stop_loop close [] x warns = (x, warns)"
| "Stop_loop close (connector # cs) x warns =
     (case connector_Stop close connector x of
        (Some err, x') \<Rightarrow> Stop_loop close cs x' (warns @ [err])
      | (None, x') \<Rightarrow> Stop_loop close cs x' warns)"

definition Stop ::
  "('l \<Rightarrow> 'x \<Rightarrow> 'e option \<times> 'x) \<Rightarrow> 'l DefaultServer \<Rightarrow> 'x \<Rightarrow> 'e option \<times> 'x \<times> 'e list" where
  "Stop close server x =
     (case Stop_loop close (Connectors server) x [] of (x', warns) \<Rightarrow> (None, x', warns))"

text \<open>The listeners that \<open>Stop\<close> is to close, in the order of the connectors.\<close>

definition open_listeners :: "'l DefaultServer \<Rightarrow> 'l list" where
  "open_listeners server = List.map_filter listener (Connectors server)"

text \<open>Closing a list of listeners one after the other: the state of the network layer
  afterwards and the errors met, in order.\<close>

fun close_all :: "('l \<Rightarrow> 'x \<Rightarrow> 'e option \<times> 'x) \<Rightarrow> 'l list \<Rightarrow> 'x \<Rightarrow> 'x \<times> 'e list" where
  "close_all close [] x = (x, [])"
| "close_all close (l # ls) x =
     (case close l x of
        (r, x') \<Rightarrow>
          (case close_all close ls x' of
             (x'', errs) \<Rightarrow> (x'', (case r of Some e \<Rightarrow> [e] | None \<Rightarrow> []) @ errs)))"

subsection \<open>Start\<close>

text \<open>
  \<open>DefaultServer.Start\<close> launches one goroutine per connector, each of which sends the
  result of the connector's \<open>Start\<close> on \<open>errorChan\<close>, and then runs a loop of
  \<open>len(server.Connectors)\<close> rounds; each round is one \<open>select\<close> that receives either a
  result from \<open>errorChan\<close> or a signal from \<open>sigChan\<close>. What the goroutines and the
  operating system do is the environment of that loop: it is given as the sequence of
  messages that the successive \<open>select\<close> statements receive, in the order in which they
  are received. A \<open>select\<close> that finds the sequence exhausted waits forever: \<open>Start\<close> does
  not return, which is the value \<open>None\<close>. \<open>Some None\<close> is the return value \<open>nil\<close>.
\<close>

datatype signal = Interrupt | OtherSignal nat

datatype 'e message =
    FromErrorChan "'e option"
  | FromSigChan signal

fun Start_loop :: "nat \<Rightarrow> 'e message list \<Rightarrow> 'e option option" where
  "Start_loop 0 ms = Some None"
| "Start_loop (Suc i) [] = None"
| "Start_loop (Suc i) (FromErrorChan err # ms) =
     (case err of Some e \<Rightarrow> Some (Some e) | None \<Rightarrow> Start_loop i ms)"
| "Start_loop (Suc i) (FromSigChan sig # ms) =
     (if sig = Interrupt then Some None else Start_loop i ms)"

definition Start :: "'l DefaultServer \<Rightarrow> 'e message list \<Rightarrow> 'e option option" where
  "Start server ms = Start_loop (length (Connectors server)) ms"

section \<open>The server command (ServerCommand.Run)\<close>

text \<open>
  \<open>Run\<close> calls its collaborators one after the other. Each call is a step of the trace;
  what a collaborator answers (\<open>nil\<close> or an error) is given by the record of outcomes.
  The deferred calls run when \<open>Run\<close> returns, the one deferred last first.
\<close>

datatype 'e step =
    ConfiguredCommandRun
  | EnvironmentCommandRun
  | BuildServer
  | PrintBanner
  | BootstrapRun
  | ApplicationRun
  | SetStarting
  | ServerStart
  | ServerStop
  | SetStopped
  | LogError string 'e

record 'e outcomes =
  configured :: "'e option"
  environment :: "'e option"
  build :: "'e option"
  bundles :: "'e option"
  application :: "'e option"
  start :: "'e option"

definition Run :: "'e outcomes \<Rightarrow> 'e step list \<times> 'e option" where
  "Run out =
     (case configured out of
        Some err \<Rightarrow> ([ConfiguredCommandRun], Some err)
      | None \<Rightarrow>
     (case environment out of
        Some err \<Rightarrow> ([ConfiguredCommandRun, EnvironmentCommandRun], Some err)
      | None \<Rightarrow>
     (case build out of
        Some err \<Rightarrow>
          ([ConfiguredCommandRun, EnvironmentCommandRun, BuildServer,
            LogError ''could not create server: %v'' err], Some err)
      | None \<Rightarrow>
     (case bundles out of
        Some err \<Rightarrow>
          ([ConfiguredCommandRun, EnvironmentCommandRun, BuildServer, PrintBanner,
            BootstrapRun, LogError ''could not run bootstrap: %v'' err], Some err)
      | None \<Rightarrow>
     (case application out of
        Some err \<Rightarrow>
          ([ConfiguredCommandRun, EnvironmentCommandRun, BuildServer, PrintBanner,
            BootstrapRun, ApplicationRun, LogError ''could not run application: %v'' err],
           Some err)
      | None \<Rightarrow>
          ([ConfiguredCommandRun, EnvironmentCommandRun, BuildServer, PrintBanner,
            BootstrapRun, ApplicationRun, SetStarting, ServerStart] @
           (case start out of
              Some err \<Rightarrow> [LogError ''could not start server: %v'' err]
            | None \<Rightarrow> []) @
           [ServerStop, SetStopped], start out))))))"

text \<open>The calls of a trace, without the log lines.\<close>

fun is_call :: "'e step \<Rightarrow> bool" where
  "is_call (LogError _ _) = False"
| "is_call _ = True"

definition calls :: "'e step list \<Rightarrow> 'e step list" where
  "calls tr = filter is_call tr"

text \<open>The order of the specification's list of steps, and the order of the source.\<close>

definition spec_order :: "'e step list" where
  "spec_order =
     [ConfiguredCommandRun, EnvironmentCommandRun, BuildServer, BootstrapRun,
      ApplicationRun, PrintBanner, SetStarting, ServerStart, ServerStop, SetStopped]"

definition run_order :: "'e step list" where
  "run_order =
     [ConfiguredCommandRun, EnvironmentCommandRun, BuildServer, PrintBanner,
      BootstrapRun, ApplicationRun, SetStarting, ServerStart, ServerStop, SetStopped]"

text \<open>The steps before the server starts that can fail, with their answers, in the
  order of the source; the number of calls made when the first of them fails.\<close>

definition first_failure :: "'e outcomes \<Rightarrow> (nat \<times> 'e) option" where
  "first_failure out =
     (case configured out of Some e \<Rightarrow> Some (1, e) | None \<Rightarrow>
     (case environment out of Some e \<Rightarrow> Some (2, e) | None \<Rightarrow>
     (case build out of Some e \<Rightarrow> Some (3, e) | None \<Rightarrow>
     (case bundles out of Some e \<Rightarrow> Some (5, e) | None \<Rightarrow>
     (case application out of Some e \<Rightarrow> Some (6, e) | None \<Rightarrow> None)))))"

section \<open>Example configurations\<close>

text \<open>
  A router after \<open>SetPathPrefix("/api/")\<close> and \<open>Handle("GET", "/users", 1)\<close>, and the
  same router after \<open>Handle("GET", "/static/", 2)\<close>; handlers are numbers here.
\<close>

definition example_router :: "nat DefaultServerHandler" where
  "example_router =
     \<lparr>ServeMux =
        \<lparr>mux_m = [(''/api/users'',
                   \<lparr>explicit = True, entry_h = NodeRef 0, entry_pattern = ''/api/users''\<rparr>)],
         hosts = False\<rparr>,
      pathPrefix = ''/api'',
      pattern_handlers = [''/api/users'' \<mapsto> 0],
      store = (\<lambda>_. newHTTPHandler)(0 := \<lparr>handlers = [''GET'' \<mapsto> 1]\<rparr>),
      next_ref = 1\<rparr>"

definition static_router :: "nat DefaultServerHandler" where
  "static_router =
     \<lparr>ServeMux =
        \<lparr>mux_m = [(''/api/users'',
                   \<lparr>explicit = True, entry_h = NodeRef 0, entry_pattern = ''/api/users''\<rparr>),
                  (''/api/static/'',
                   \<lparr>explicit = True, entry_h = NodeRef 1, entry_pattern = ''/api/static/''\<rparr>),
                  (''/api/static'',
                   \<lparr>explicit = False, entry_h = RedirectHandler ''/api/static/'' 301,
                    entry_pattern = ''/api/static/''\<rparr>)],
         hosts = False\<rparr>,
      pathPrefix = ''/api'',
      pattern_handlers = [''/api/users'' \<mapsto> 0, ''/api/static/'' \<mapsto> 1],
      store = (\<lambda>_. newHTTPHandler)
                (0 := \<lparr>handlers = [''GET'' \<mapsto> 1]\<rparr>, 1 := \<lparr>handlers = [''GET'' \<mapsto> 2]\<rparr>),
      next_ref = 2\<rparr>"

text \<open>A request for a path, as a client sends it to the server.\<close>

definition request_for :: "string \<Rightarrow> string \<Rightarrow> request" where
  "request_for method path =
     \<lparr>Method = method, Host = ''localhost:8080'', RequestURI = path, Path = path\<rparr>"


text \<open>Two resource handlers: the first claims every resource, the second, added
  later, the resources with the verb GET. Neither touches the router.\<close>

definition claim_resources :: "nat ResourceHandler" where
  "claim_resources c sh = ((case c of Resource ty m p \<Rightarrow> True | Plain ty \<Rightarrow> False), sh)"

definition claim_get_resources :: "nat ResourceHandler" where
  "claim_get_resources c sh =
     ((case c of Resource ty m p \<Rightarrow> m = ''GET'' | Plain ty \<Rightarrow> False), sh)"

definition example_env :: "nat ServerEnvironment" where
  "example_env =
     \<lparr>ServerHandler = example_router,
      components = [Resource ''UserResource'' ''GET'' ''/users'', Plain ''HealthCheck'',
                    Resource ''ItemResource'' ''POST'' ''/items''],
      resourceHandlers = [claim_resources, claim_get_resources],
      trace = []\<rparr>"

text \<open>An environment to which no resource handler was added.\<close>

definition bare_env :: "nat ServerEnvironment" where
  "bare_env =
     \<lparr>ServerHandler = example_router,
      components = [Resource ''UserResource'' ''GET'' ''/users''],
      resourceHandlers = [],
      trace = []\<rparr>"

text \<open>
  A server with three connectors, the second of which was never started. Listeners are
  numbers; the state of the network layer is the list of the listeners closed so far,
  and closing a listener a second time answers an error.
\<close>

definition example_server :: "nat DefaultServer" where
  "example_server =
     \<lparr>Connectors = [\<lparr>Addr = '':8080'', listener = Some 0\<rparr>,
                    \<lparr>Addr = '':8081'', listener = None\<rparr>,
                    \<lparr>Addr = '':8443'', listener = Some 2\<rparr>]\<rparr>"

definition example_close :: "nat \<Rightarrow> nat list \<Rightarrow> string option \<times> nat list" where
  "example_close l closed =
     ((if l \<in> set closed then Some ''use of closed network connection'' else None),
      closed @ [l])"

definition all_succeed :: "string outcomes" where
  "all_succeed =
     \<lparr>configured = None, environment = None, build = None, bundles = None,
      application = None, start = None\<rparr>"

section \<open>Properties of the method router\<close>

subsection \<open>The path prefix\<close>

lemma SetPathPrefix_last:
  "pathPrefix (SetPathPrefix s sh) = (if s \<noteq> [] \<and> last s = CHR ''/'' then butlast s else s)"
  by (cases s rule: rev_cases) (simp_all add: SetPathPrefix_def Let_def nth_append butlast_conv_take)

lemma SetPathPrefix_frame:
  "ServeMux (SetPathPrefix q sh) = ServeMux sh \<and>
   pattern_handlers (SetPathPrefix q sh) = pattern_handlers sh \<and>
   store (SetPathPrefix q sh) = store sh \<and> next_ref (SetPathPrefix q sh) = next_ref sh"
  by (simp add: SetPathPrefix_def Let_def)

lemma SetPathPrefix_ServeHTTP: "ServeHTTP pm (SetPathPrefix q sh) req = ServeHTTP pm sh req"
  by (simp add: ServeHTTP_def SetPathPrefix_frame split: mux_handler.splits)


text \<open>
  C7, as the specification words it, asks that the prefix read back has no trailing
  slash left. \<open>SetPathPrefix\<close> removes one slash only: of \<open>a//\<close> it keeps \<open>a/\<close>.
\<close>

theorem PathPrefix_keeps_second_slash:
  "PathPrefix (SetPathPrefix ''a//'' (NewServerHandler :: nat DefaultServerHandler)) = ''a/'' \<and>
   PathPrefix (SetPathPrefix ''a//'' (NewServerHandler :: nat DefaultServerHandler))
     \<noteq> strip_trailing_slashes ''a//''"
  by (simp add: PathPrefix_def SetPathPrefix_def NewServerHandler_def strip_trailing_slashes_def)

text \<open>
  C7 (amended): after \<open>SetPathPrefix s\<close>, \<open>PathPrefix()\<close> returns \<open>s\<close> without its last
  character when \<open>s\<close> ends with a slash, and \<open>s\<close> itself otherwise; so \<open>s\<close> is the result
  followed by at most one slash, and the result has no trailing slash at all unless
  \<open>s\<close> ends with two slashes.
\<close>

theorem PathPrefix_strips_one_slash:
  "PathPrefix (SetPathPrefix s sh) = (if s \<noteq> [] \<and> last s = CHR ''/'' then butlast s else s) \<and>
   (s = PathPrefix (SetPathPrefix s sh) \<or> s = PathPrefix (SetPathPrefix s sh) @ ''/'') \<and>
   ((\<nexists>t. s = t @ ''//'') \<longrightarrow> PathPrefix (SetPathPrefix s sh) = strip_trailing_slashes s)"
proof (cases s rule: rev_cases)
  case Nil
  then show ?thesis by (simp add: PathPrefix_def SetPathPrefix_last strip_trailing_slashes_def)
next
  case (snoc ys y)
  show ?thesis
  proof (cases "y = CHR ''/''")
    case True
    have "ys = [] \<or> last ys \<noteq> CHR ''/''" if "\<nexists>t. s = t @ ''//''"
      using that snoc True by (cases ys rule: rev_cases) auto
    then have "\<nexists>t. s = t @ ''//'' \<Longrightarrow> dropWhile (\<lambda>c. c = CHR ''/'') (rev ys) = rev ys"
      by (cases ys rule: rev_cases) auto
    then show ?thesis using snoc True
      by (auto simp add: PathPrefix_def SetPathPrefix_last strip_trailing_slashes_def)
  next
    case False
    then show ?thesis using snoc
      by (simp add: PathPrefix_def SetPathPrefix_last strip_trailing_slashes_def)
  qed
qed

theorem PathPrefix_strips_one_slash_witness:
  "(\<nexists>t. ''/api/'' = t @ ''//'') \<and>
   PathPrefix (SetPathPrefix ''/api/'' (NewServerHandler :: nat DefaultServerHandler)) = ''/api'' \<and>
   strip_trailing_slashes ''/api/'' = ''/api''"
  using PathPrefix_strips_one_slash [of "''/api/''" "NewServerHandler :: nat DefaultServerHandler"]
  by (simp add: strip_trailing_slashes_def)

subsection \<open>Registration\<close>

lemma router_inv_New: "router_inv NewServerHandler"
  by (simp add: router_inv_def NewServerHandler_def NewServeMux_def)

lemma router_inv_SetPathPrefix: "router_inv sh \<Longrightarrow> router_inv (SetPathPrefix q sh)"
  unfolding router_inv_def by (simp add: SetPathPrefix_frame)

lemma not_explicit_fresh:
  "router_inv sh \<Longrightarrow> pattern_handlers sh k = None \<Longrightarrow> \<not> is_explicit (mux_m (ServeMux sh)) k"
  by (auto simp: router_inv_def is_explicit_def split: option.splits)

lemma ServeMux_Handle_ok:
  "pattern \<noteq> [] \<Longrightarrow> check mux pattern = None \<Longrightarrow> \<not> is_explicit (mux_m mux) pattern \<Longrightarrow>
     ServeMux_Handle check pattern handler mux = Inr (entered pattern handler mux)"
  by (simp add: ServeMux_Handle_def entered_def Let_def)

lemma ServeMux_Handle_Inr:
  "ServeMux_Handle check pattern handler mux = Inr mux' \<Longrightarrow>
     pattern \<noteq> [] \<and> check mux pattern = None \<and> mux' = entered pattern handler mux"
  by (auto simp add: ServeMux_Handle_def entered_def Let_def split: if_splits option.splits)

lemma map_of_entered:
  "pattern \<noteq> [] \<Longrightarrow>
   map_of (mux_m (entered pattern handler mux)) k =
     (if k = pattern then Some \<lparr>explicit = True, entry_h = handler, entry_pattern = pattern\<rparr>
      else if k = butlast pattern \<and> last pattern = CHR ''/'' \<and> \<not> is_explicit (mux_m mux) k
      then Some \<lparr>explicit = False,
                 entry_h = RedirectHandler
                   (if hd pattern \<noteq> CHR ''/'' then dropWhile (\<lambda>c. c \<noteq> CHR ''/'') pattern
                    else pattern) StatusMovedPermanently,
                 entry_pattern = pattern\<rparr>
      else map_of (mux_m mux) k)"
proof -
  assume ne: "pattern \<noteq> []"
  have t: "take (length pattern - 1) pattern = butlast pattern" by (simp add: butlast_conv_take)
  have l: "pattern ! (length pattern - 1) = last pattern" using ne by (simp add: last_conv_nth)
  have b: "butlast pattern \<noteq> pattern" using ne
    by (metis length_butlast diff_less length_greater_0_conv less_numeral_extra(1) nat_neq_iff)
  have e: "is_explicit (AList.update pattern v (mux_m mux)) (butlast pattern) =
      is_explicit (mux_m mux) (butlast pattern)" for v
    using b by (simp add: is_explicit_def update_conv')
  let ?e1 = "\<lparr>explicit = True, entry_h = handler, entry_pattern = pattern\<rparr>"
  let ?e2 = "\<lparr>explicit = False,
             entry_h = RedirectHandler
               (if hd pattern \<noteq> CHR ''/'' then dropWhile (\<lambda>c. c \<noteq> CHR ''/'') pattern
                else pattern) StatusMovedPermanently,
             entry_pattern = pattern\<rparr>"
  have ent: "mux_m (entered pattern handler mux) =
      (if last pattern = CHR ''/'' \<and> \<not> is_explicit (mux_m mux) (butlast pattern)
       then AList.update (butlast pattern) ?e2 (AList.update pattern ?e1 (mux_m mux))
       else AList.update pattern ?e1 (mux_m mux))"
    unfolding entered_def Let_def t l e by simp
  show ?thesis
    unfolding ent using b by (auto simp add: update_conv')
qed

lemma distinct_entered:
  "distinct (map fst (mux_m mux)) \<Longrightarrow> distinct (map fst (mux_m (entered pattern handler mux)))"
  by (simp add: entered_def Let_def distinct_update)

lemma Handle_new:
  assumes "router_inv sh" "pattern_handlers sh (pathPrefix sh @ p) = None"
    "pathPrefix sh @ p \<noteq> []" "check (ServeMux sh) (pathPrefix sh @ p) = None"
  shows "Handle check v p h sh =
     Inr (sh\<lparr>next_ref := Suc (next_ref sh),
             store := (store sh)(next_ref sh := \<lparr>handlers = [v \<mapsto> h]\<rparr>),
             ServeMux := entered (pathPrefix sh @ p) (NodeRef (next_ref sh)) (ServeMux sh),
             pattern_handlers := (pattern_handlers sh)(pathPrefix sh @ p \<mapsto> next_ref sh)\<rparr>)"
  using not_explicit_fresh[OF assms(1,2)] assms(2,3,4)
  by (simp add: Handle_def Let_def ServeMux_Handle_ok newHTTPHandler_def)





lemma Handle_Inr_cases:
  assumes "router_inv sh" "Handle check v p h sh = Inr sh'"
  shows "(\<exists>r. pattern_handlers sh (pathPrefix sh @ p) = Some r \<and> handlers (store sh r) v = None \<and>
            sh' = sh\<lparr>store := (store sh)(r := (store sh r)\<lparr>handlers := (handlers (store sh r))(v \<mapsto> h)\<rparr>)\<rparr>) \<or>
         (pattern_handlers sh (pathPrefix sh @ p) = None \<and> pathPrefix sh @ p \<noteq> [] \<and>
            sh' = sh\<lparr>next_ref := Suc (next_ref sh),
             store := (store sh)(next_ref sh := \<lparr>handlers = [v \<mapsto> h]\<rparr>),
             ServeMux := entered (pathPrefix sh @ p) (NodeRef (next_ref sh)) (ServeMux sh),
             pattern_handlers := (pattern_handlers sh)(pathPrefix sh @ p \<mapsto> next_ref sh)\<rparr>)"
proof (cases "pattern_handlers sh (pathPrefix sh @ p)")
  case None
  obtain mux' where m: "ServeMux_Handle check (pathPrefix sh @ p) (NodeRef (next_ref sh)) (ServeMux sh) = Inr mux'"
    using assms(2) None by (auto simp: Handle_def Let_def split: sum.splits)
  from ServeMux_Handle_Inr[OF m] have ne: "pathPrefix sh @ p \<noteq> []"
    and c: "check (ServeMux sh) (pathPrefix sh @ p) = None" by auto
  show ?thesis
    using Handle_new[where check = check and sh = sh and p = p and v = v and h = h]
      assms None ne c by simp
next
  case (Some r)
  then show ?thesis using assms(2)
    by (auto simp: Handle_def Let_def split: option.splits)
qed

lemma router_inv_new:
  assumes inv: "router_inv sh" and None: "pattern_handlers sh k = None" and ne: "k \<noteq> []"
  shows "router_inv (sh\<lparr>next_ref := Suc (next_ref sh),
             store := (store sh)(next_ref sh := node),
             ServeMux := entered k (NodeRef (next_ref sh)) (ServeMux sh),
             pattern_handlers := (pattern_handlers sh)(k \<mapsto> next_ref sh)\<rparr>)"
proof -
  have b: "butlast k \<noteq> k" using ne
    by (metis length_butlast diff_less length_greater_0_conv less_numeral_extra(1) nat_neq_iff)
  have ex: "pattern_handlers sh k' = Some r \<Longrightarrow> is_explicit (mux_m (ServeMux sh)) k'" for k' r
    using inv by (auto simp: router_inv_def is_explicit_def)
  show ?thesis
    using inv None b ex unfolding router_inv_def
    by (auto simp: map_of_entered[OF ne] distinct_entered less_Suc_eq split: if_splits)
qed

lemma router_inv_Handle:
  assumes "router_inv sh" "Handle check v p h sh = Inr sh'"
  shows "router_inv sh'"
  using Handle_Inr_cases[OF assms]
proof (elim disjE exE conjE)
  fix r
  assume "sh' = sh\<lparr>store := (store sh)(r := (store sh r)\<lparr>handlers := (handlers (store sh r))(v \<mapsto> h)\<rparr>)\<rparr>"
  then show ?thesis using assms(1) by (simp add: router_inv_def)
next
  assume n: "pattern_handlers sh (pathPrefix sh @ p) = None" "pathPrefix sh @ p \<noteq> []"
    and s: "sh' = sh\<lparr>next_ref := Suc (next_ref sh),
             store := (store sh)(next_ref sh := \<lparr>handlers = [v \<mapsto> h]\<rparr>),
             ServeMux := entered (pathPrefix sh @ p) (NodeRef (next_ref sh)) (ServeMux sh),
             pattern_handlers := (pattern_handlers sh)(pathPrefix sh @ p \<mapsto> next_ref sh)\<rparr>"
  show ?thesis unfolding s using router_inv_new[OF assms(1) n] .
qed

lemma Handle_registers:
  assumes "router_inv sh" "Handle check v p h sh = Inr sh'"
  shows "\<exists>r. pattern_handlers sh' (pathPrefix sh @ p) = Some r \<and> handlers (store sh' r) v = Some h
           \<and> pathPrefix sh' = pathPrefix sh"
  using Handle_Inr_cases[OF assms] by auto

lemma Handle_frame:
  assumes "router_inv sh" "Handle check v p h sh = Inr sh'" "k \<noteq> pathPrefix sh @ p"
    "pattern_handlers sh k = Some r"
  shows "pattern_handlers sh' k = Some r \<and> store sh' r = store sh r"
  using Handle_Inr_cases[OF assms(1,2)]
proof (elim disjE exE conjE)
  fix r0
  assume a: "pattern_handlers sh (pathPrefix sh @ p) = Some r0"
    and s: "sh' = sh\<lparr>store := (store sh)(r0 := (store sh r0)\<lparr>handlers := (handlers (store sh r0))(v \<mapsto> h)\<rparr>)\<rparr>"
  have "r \<noteq> r0" using assms(1,3,4) a by (auto simp: router_inv_def)
  then show ?thesis using s assms(4) by simp
next
  assume s: "sh' = sh\<lparr>next_ref := Suc (next_ref sh),
             store := (store sh)(next_ref sh := \<lparr>handlers = [v \<mapsto> h]\<rparr>),
             ServeMux := entered (pathPrefix sh @ p) (NodeRef (next_ref sh)) (ServeMux sh),
             pattern_handlers := (pattern_handlers sh)(pathPrefix sh @ p \<mapsto> next_ref sh)\<rparr>"
  have "r < next_ref sh" using assms(1,4) by (auto simp: router_inv_def)
  then show ?thesis using s assms(3,4) by auto
qed

subsection \<open>What the path matcher selects\<close>

lemma match_loop_None:
  "match_loop pm es path found n = None \<longleftrightarrow> found = None \<and> (\<forall>(k, v) \<in> set es. \<not> pm k path)"
  by (induction pm es path found n rule: match_loop.induct) auto

lemma match_loop_Some:
  "match_loop pm es path found n = Some x \<Longrightarrow>
     found = Some x \<or> (\<exists>(k, v) \<in> set es. pm k path \<and> x = (entry_h v, entry_pattern v))"
  by (induction pm es path found n rule: match_loop.induct) (auto split: if_splits)

lemma mux_match_None:
  "mux_match pm mux path = None \<longleftrightarrow> (\<forall>(k, v) \<in> set (mux_m mux). \<not> pm k path)"
  by (simp add: mux_match_def match_loop_None)

lemma mux_match_Some:
  "mux_match pm mux path = Some x \<Longrightarrow>
     \<exists>(k, v) \<in> set (mux_m mux). pm k path \<and> x = (entry_h v, entry_pattern v)"
  using match_loop_Some[of pm "mux_m mux" path None 0 x] by (simp add: mux_match_def)

lemma ServeMux_handler_none:
  "(\<forall>(k, v) \<in> set (mux_m mux). \<not> ((hosts mux \<and> pm k (host @ path)) \<or> pm k path)) \<Longrightarrow>
     ServeMux_handler pm mux host path = (NotFoundHandler, [])"
proof -
  assume a: "\<forall>(k, v) \<in> set (mux_m mux). \<not> ((hosts mux \<and> pm k (host @ path)) \<or> pm k path)"
  then have p: "mux_match pm mux path = None" by (auto simp: mux_match_None)
  have h: "hosts mux \<Longrightarrow> mux_match pm mux (host @ path) = None"
    using a by (auto simp: mux_match_None)
  show ?thesis using p h by (simp add: ServeMux_handler_def Let_def)
qed

lemma ServeMux_handler_some:
  "(\<exists>(k, v) \<in> set (mux_m mux). (hosts mux \<and> pm k (host @ path)) \<or> pm k path) \<Longrightarrow>
     \<exists>k v. (k, v) \<in> set (mux_m mux) \<and> ((hosts mux \<and> pm k (host @ path)) \<or> pm k path) \<and>
       ServeMux_handler pm mux host path = (entry_h v, entry_pattern v)"
proof -
  assume a: "\<exists>(k, v) \<in> set (mux_m mux). (hosts mux \<and> pm k (host @ path)) \<or> pm k path"
  show ?thesis
  proof (cases "hosts mux \<and> mux_match pm mux (host @ path) \<noteq> None")
    case True
    then obtain x where x: "mux_match pm mux (host @ path) = Some x" by auto
    from mux_match_Some[OF x] obtain k v where "(k, v) \<in> set (mux_m mux)" "pm k (host @ path)"
      "x = (entry_h v, entry_pattern v)" by auto
    then show ?thesis using True x by (auto simp: ServeMux_handler_def Let_def)
  next
    case False
    then have f: "(if hosts mux then mux_match pm mux (host @ path) else None) = None"
      by (cases "mux_match pm mux (host @ path)") auto
    have "\<not> (\<forall>(k, v) \<in> set (mux_m mux). \<not> pm k path)"
      using a False by (auto simp: mux_match_None)
    then obtain x where x: "mux_match pm mux path = Some x"
      using mux_match_None[of pm mux path] by (cases "mux_match pm mux path") auto
    from mux_match_Some[OF x] obtain k v where "(k, v) \<in> set (mux_m mux)" "pm k path"
      "x = (entry_h v, entry_pattern v)" by auto
    then show ?thesis using f x by (auto simp: ServeMux_handler_def Let_def)
  qed
qed

lemma inv_entry:
  assumes "router_inv sh" "(k, e) \<in> set (mux_m (ServeMux sh))"
  shows "(\<forall>n. pattern_handlers sh k = Some n \<longrightarrow> entry_h e = NodeRef n) \<and>
         (pattern_handlers sh k = None \<longrightarrow> (\<exists>url. entry_h e = RedirectHandler url StatusMovedPermanently))"
proof -
  from assms(1) have d: "distinct (map fst (mux_m (ServeMux sh)))"
    and i2: "\<forall>k h. pattern_handlers sh k = Some h \<longrightarrow>
        map_of (mux_m (ServeMux sh)) k =
          Some \<lparr>explicit = True, entry_h = NodeRef h, entry_pattern = k\<rparr>"
    and i3: "\<forall>k e. map_of (mux_m (ServeMux sh)) k = Some e \<and> pattern_handlers sh k = None \<longrightarrow>
        \<not> explicit e \<and> (\<exists>url. entry_h e = RedirectHandler url StatusMovedPermanently)"
    unfolding router_inv_def by blast+
  have m: "map_of (mux_m (ServeMux sh)) k = Some e"
    using d assms(2) by (rule map_of_is_SomeI)
  show ?thesis using m i2 i3 by auto
qed

lemma inv_NodeRef:
  assumes "router_inv sh" "(k, e) \<in> set (mux_m (ServeMux sh))" "entry_h e = NodeRef n"
  shows "pattern_handlers sh k = Some n"
  using inv_entry[OF assms(1,2)] assms(3) by (cases "pattern_handlers sh k") auto

lemma direct_Handler:
  "direct req \<Longrightarrow>
     ServeMux_Handler pm mux req = ServeMux_handler pm mux (Host req) (Path req)"
  by (auto simp: direct_def ServeMux_Handler_def)

lemma Handler_NodeRef:
  assumes "router_inv sh" "ServeMux_Handler pm (ServeMux sh) req = (NodeRef n, pat)"
  shows "\<exists>k. pattern_handlers sh k = Some n"
proof -
  have r: "ServeMux_handler pm (ServeMux sh) (Host req) (Path req) = (NodeRef n, pat)"
    using assms(2) by (auto simp: ServeMux_Handler_def split: if_splits)
  have "\<exists>(k, v) \<in> set (mux_m (ServeMux sh)). (hosts (ServeMux sh) \<and> pm k (Host req @ Path req)) \<or> pm k (Path req)"
    using r ServeMux_handler_none[of "ServeMux sh" pm "Host req" "Path req"] by fastforce
  from ServeMux_handler_some[OF this] r obtain k v where
    "(k, v) \<in> set (mux_m (ServeMux sh))" "entry_h v = NodeRef n" by auto
  then show ?thesis using inv_NodeRef[OF assms(1)] by blast
qed

subsection \<open>The example routers\<close>

lemma router_inv_example: "router_inv example_router"
  by (auto simp: router_inv_def example_router_def split: if_splits)

lemma router_inv_static: "router_inv static_router"
  by (auto simp: router_inv_def static_router_def StatusMovedPermanently_def split: if_splits)

lemma example_router_reached:
  "Handle no_check ''GET'' ''/users'' 1 (SetPathPrefix ''/api/'' NewServerHandler) = Inr example_router"
  by (simp add: Handle_def SetPathPrefix_def NewServerHandler_def NewServeMux_def
      ServeMux_Handle_def example_router_def newHTTPHandler_def Let_def no_check_def is_explicit_def)






lemmas serve_defs = ServeHTTP_def ServeMux_Handler_def ServeMux_handler_def mux_match_def
  node_ServeHTTP_def request_for_def cleanPath_def path_Clean_def pathMatch_def
  StatusMovedPermanently_def StatusBadRequest_def StatusNotFound_def StatusMethodNotAllowed_def
  Let_def




text \<open>
  C10: a route that \<open>Handle\<close> registers is entered under the prefix of that moment.
  A later \<open>SetPathPrefix\<close> changes neither table nor any node, so every request is served
  as before; a route registered after it is entered under the new prefix, and that
  registration leaves every other pattern with its node and its verbs.
\<close>

theorem SetPathPrefix_leaves_routes:
  assumes inv: "router_inv sh" and H: "Handle check v p h sh = Inr sh1"
  shows
  "(\<exists>r. pattern_handlers sh1 (PathPrefix sh @ p) = Some r \<and> handlers (store sh1 r) v = Some h) \<and>
   ServeMux (SetPathPrefix q sh1) = ServeMux sh1 \<and>
   pattern_handlers (SetPathPrefix q sh1) = pattern_handlers sh1 \<and>
   store (SetPathPrefix q sh1) = store sh1 \<and>
   (\<forall>pm req. ServeHTTP pm (SetPathPrefix q sh1) req = ServeHTTP pm sh1 req) \<and>
   (\<forall>v' p' h' sh3. Handle check v' p' h' (SetPathPrefix q sh1) = Inr sh3 \<longrightarrow>
      (\<exists>r'. pattern_handlers sh3 (PathPrefix (SetPathPrefix q sh1) @ p') = Some r' \<and>
            handlers (store sh3 r') v' = Some h') \<and>
      (\<forall>k r. k \<noteq> PathPrefix (SetPathPrefix q sh1) @ p' \<and> pattern_handlers sh1 k = Some r \<longrightarrow>
            pattern_handlers sh3 k = Some r \<and> store sh3 r = store sh1 r))"
proof -
  have inv1: "router_inv sh1" using router_inv_Handle[OF inv H] .
  have inv2: "router_inv (SetPathPrefix q sh1)" using router_inv_SetPathPrefix[OF inv1] .
  have A: "\<exists>r. pattern_handlers sh1 (PathPrefix sh @ p) = Some r \<and> handlers (store sh1 r) v = Some h"
    using Handle_registers[OF inv H] by (auto simp: PathPrefix_def)
  have D: "(\<exists>r'. pattern_handlers sh3 (PathPrefix (SetPathPrefix q sh1) @ p') = Some r' \<and>
            handlers (store sh3 r') v' = Some h') \<and>
      (\<forall>k r. k \<noteq> PathPrefix (SetPathPrefix q sh1) @ p' \<and> pattern_handlers sh1 k = Some r \<longrightarrow>
            pattern_handlers sh3 k = Some r \<and> store sh3 r = store sh1 r)"
    if H3: "Handle check v' p' h' (SetPathPrefix q sh1) = Inr sh3" for v' p' h' sh3
  proof
    show "\<exists>r'. pattern_handlers sh3 (PathPrefix (SetPathPrefix q sh1) @ p') = Some r' \<and>
            handlers (store sh3 r') v' = Some h'"
      using Handle_registers[OF inv2 H3] by (auto simp: PathPrefix_def)
    show "\<forall>k r. k \<noteq> PathPrefix (SetPathPrefix q sh1) @ p' \<and> pattern_handlers sh1 k = Some r \<longrightarrow>
            pattern_handlers sh3 k = Some r \<and> store sh3 r = store sh1 r"
    proof (intro allI impI)
      fix k r
      assume a: "k \<noteq> PathPrefix (SetPathPrefix q sh1) @ p' \<and> pattern_handlers sh1 k = Some r"
      then have k: "k \<noteq> pathPrefix (SetPathPrefix q sh1) @ p'"
        and r: "pattern_handlers (SetPathPrefix q sh1) k = Some r"
        by (simp_all add: PathPrefix_def SetPathPrefix_frame)
      from Handle_frame[OF inv2 H3 k r]
      show "pattern_handlers sh3 k = Some r \<and> store sh3 r = store sh1 r"
        by (simp add: SetPathPrefix_frame)
    qed
  qed
  show ?thesis
    using A D by (simp add: SetPathPrefix_frame SetPathPrefix_ServeHTTP)
qed


theorem SetPathPrefix_leaves_routes_witness:
  "router_inv (SetPathPrefix ''/api/'' NewServerHandler :: nat DefaultServerHandler) \<and>
   Handle no_check ''GET'' ''/users'' 1 (SetPathPrefix ''/api/'' NewServerHandler) = Inr example_router \<and>
   pattern_handlers (SetPathPrefix ''/v2/'' example_router) ''/api/users'' = Some 0 \<and>
   ServeHTTP pathMatch (SetPathPrefix ''/v2/'' example_router) (request_for ''GET'' ''/api/users'')
     = Delegated 1 \<and>
   (\<exists>sh3. Handle no_check ''GET'' ''/users'' 5 (SetPathPrefix ''/v2/'' example_router) = Inr sh3 \<and>
      pattern_handlers sh3 ''/v2/users'' = Some 1 \<and> handlers (store sh3 1) ''GET'' = Some 5 \<and>
      pattern_handlers sh3 ''/api/users'' = Some 0 \<and> store sh3 0 = store example_router 0)"
proof -
  let ?sh = "SetPathPrefix ''/api/'' NewServerHandler :: nat DefaultServerHandler"
  have inv: "router_inv ?sh" by (rule router_inv_SetPathPrefix[OF router_inv_New])
  have H: "Handle no_check ''GET'' ''/users'' 1 ?sh = Inr example_router" by (rule example_router_reached)
  note T = SetPathPrefix_leaves_routes[OF inv H, of "''/v2/''"]
  have p2: "PathPrefix (SetPathPrefix ''/v2/'' example_router) = ''/v2''"
    by (simp add: PathPrefix_def SetPathPrefix_def)
  have inv2: "router_inv (SetPathPrefix ''/v2/'' example_router)"
    by (rule router_inv_SetPathPrefix[OF router_inv_example])
  have n: "pattern_handlers (SetPathPrefix ''/v2/'' example_router)
      (pathPrefix (SetPathPrefix ''/v2/'' example_router) @ ''/users'') = None"
    "pathPrefix (SetPathPrefix ''/v2/'' example_router) @ ''/users'' \<noteq> []"
    "no_check (ServeMux (SetPathPrefix ''/v2/'' example_router))
      (pathPrefix (SetPathPrefix ''/v2/'' example_router) @ ''/users'') = None"
    by (simp_all add: SetPathPrefix_def example_router_def no_check_def)
  note HN = Handle_new[where check = no_check and sh = "SetPathPrefix ''/v2/'' example_router"
      and p = "''/users''" and v = "''GET''" and h = 5, OF inv2 n]
  obtain sh3 where H3: "Handle no_check ''GET'' ''/users'' 5 (SetPathPrefix ''/v2/'' example_router) = Inr sh3"
    using HN by blast
  have "pattern_handlers (SetPathPrefix ''/v2/'' example_router) ''/api/users'' = Some 0"
    using T by (simp add: example_router_def)
  moreover have "ServeHTTP pathMatch (SetPathPrefix ''/v2/'' example_router)
      (request_for ''GET'' ''/api/users'') = Delegated 1"
    using T by (simp add: serve_defs example_router_def)
  moreover have "pattern_handlers sh3 ''/v2/users'' = Some 1 \<and> handlers (store sh3 1) ''GET'' = Some 5 \<and>
      pattern_handlers sh3 ''/api/users'' = Some 0 \<and> store sh3 0 = store example_router 0"
    using T H3 HN p2
    by (simp add: example_router_def SetPathPrefix_def)
  ultimately show ?thesis using inv H H3 by blast
qed

subsection \<open>Serving\<close>

lemma ServeHTTP_direct:
  "direct req \<Longrightarrow>
     ServeHTTP pm sh req =
       (case fst (ServeMux_handler pm (ServeMux sh) (Host req) (Path req)) of
          NodeRef n \<Rightarrow> node_ServeHTTP (store sh n) req
        | RedirectHandler url code \<Rightarrow> Redirect url code
        | NotFoundHandler \<Rightarrow> HttpError ''404 page not found'' 404)"
  by (simp add: ServeHTTP_def direct_Handler StatusNotFound_def direct_def
      split: mux_handler.splits)

lemma ServeHTTP_not_direct:
  "\<not> direct req \<Longrightarrow>
     ServeHTTP pm sh req =
       (if RequestURI req = ''*'' then WriteHeader 400 else Redirect (cleanPath (Path req)) 301)"
  by (auto simp: ServeHTTP_def direct_def ServeMux_Handler_def StatusBadRequest_def
      StatusMovedPermanently_def)

lemma node_ServeHTTP_cases:
  "node_ServeHTTP nd req =
     (case handlers nd (Method req) of
        None \<Rightarrow> HttpError ''405 method not allowed'' 405 | Some h \<Rightarrow> Delegated h)"
  by (simp add: node_ServeHTTP_def StatusMethodNotAllowed_def split: option.splits)


text \<open>
  C2, as the specification words it, answers 404 whenever no registered pattern matches
  the path. The path matcher first makes the path clean: no pattern of the example
  router matches \<open>/api//users\<close>, and the answer is not 404 but a permanent redirect to
  \<open>/api/users\<close>.
\<close>

theorem ServeHTTP_redirects_unclean_path:
  "mux_match pathMatch (ServeMux example_router) ''/api//users'' = None \<and>
   ServeHTTP pathMatch example_router (request_for ''GET'' ''/api//users'') =
     Redirect ''/api/users'' 301"
  by (simp add: serve_defs example_router_def)


text \<open>
  C2 (amended): the path matcher answers the request URI \<open>*\<close> with 400 and a request
  whose path is not clean (and whose verb is not CONNECT) with a permanent redirect to
  the clean path. Every other request is served by its path: if no key of the path
  matcher (a registered pattern, or the root of a registered subtree without its slash)
  matches it, the answer is 404; otherwise the path matcher selects a key that matches,
  and the request is answered 405 if the key is a registered pattern whose node has no
  handler for the request's verb, is delegated to the handler if the node has one, and
  is redirected permanently if the key is the root of a subtree. The answer is 404
  exactly when the request is served by its path and no key matches, and 405 exactly
  when it is served by its path and a node is selected that lacks the verb.
\<close>

theorem ServeHTTP_not_found_or_not_allowed:
  assumes inv: "router_inv sh"
  shows
  "(RequestURI req = ''*'' \<longrightarrow> ServeHTTP pm sh req = WriteHeader 400) \<and>
   (RequestURI req \<noteq> ''*'' \<and> Method req \<noteq> ''CONNECT'' \<and> cleanPath (Path req) \<noteq> Path req \<longrightarrow>
      ServeHTTP pm sh req = Redirect (cleanPath (Path req)) 301) \<and>
   (direct req \<longrightarrow>
      ((\<forall>(k, e) \<in> set (mux_m (ServeMux sh)). \<not> key_matches pm (ServeMux sh) req k) \<longrightarrow>
         ServeHTTP pm sh req = HttpError ''404 page not found'' 404) \<and>
      ((\<exists>(k, e) \<in> set (mux_m (ServeMux sh)). key_matches pm (ServeMux sh) req k) \<longrightarrow>
         (\<exists>k e. (k, e) \<in> set (mux_m (ServeMux sh)) \<and> key_matches pm (ServeMux sh) req k \<and>
            ServeMux_handler pm (ServeMux sh) (Host req) (Path req) = (entry_h e, entry_pattern e) \<and>
            (\<forall>n. pattern_handlers sh k = Some n \<longrightarrow>
               (handlers (store sh n) (Method req) = None \<longrightarrow>
                  ServeHTTP pm sh req = HttpError ''405 method not allowed'' 405) \<and>
               (\<forall>h. handlers (store sh n) (Method req) = Some h \<longrightarrow>
                  ServeHTTP pm sh req = Delegated h)) \<and>
            (pattern_handlers sh k = None \<longrightarrow> (\<exists>url. ServeHTTP pm sh req = Redirect url 301))))) \<and>
   ((\<exists>m. ServeHTTP pm sh req = HttpError m 404) \<longleftrightarrow>
      direct req \<and> (\<forall>(k, e) \<in> set (mux_m (ServeMux sh)). \<not> key_matches pm (ServeMux sh) req k)) \<and>
   ((\<exists>m. ServeHTTP pm sh req = HttpError m 405) \<longleftrightarrow>
      direct req \<and>
      (\<exists>n pat. ServeMux_handler pm (ServeMux sh) (Host req) (Path req) = (NodeRef n, pat) \<and>
         handlers (store sh n) (Method req) = None))"
proof (cases "direct req")
  case False
  have s: "ServeHTTP pm sh req =
       (if RequestURI req = ''*'' then WriteHeader 400 else Redirect (cleanPath (Path req)) 301)"
    using ServeHTTP_not_direct[OF False] .
  show ?thesis using False unfolding s by (auto simp: direct_def)
next
  case True
  note s = ServeHTTP_direct[OF True, of pm sh]
  have uri: "RequestURI req \<noteq> ''*''" and cl: "Method req = ''CONNECT'' \<or> cleanPath (Path req) = Path req"
    using True by (auto simp: direct_def)
  let ?none = "\<forall>(k, e) \<in> set (mux_m (ServeMux sh)). \<not> key_matches pm (ServeMux sh) req k"
  show ?thesis
  proof (cases ?none)
    case n: True
    have "ServeMux_handler pm (ServeMux sh) (Host req) (Path req) = (NotFoundHandler, [])"
      using ServeMux_handler_none[of "ServeMux sh" pm "Host req" "Path req"] n
      by (simp add: key_matches_def)
    then have r: "ServeHTTP pm sh req = HttpError ''404 page not found'' 404"
      and h: "\<And>n pat. ServeMux_handler pm (ServeMux sh) (Host req) (Path req) \<noteq> (NodeRef n, pat)"
      unfolding s by simp_all
    show ?thesis using True n uri cl h unfolding r by auto
  next
    case some: False
    then have ex: "\<exists>(k, e) \<in> set (mux_m (ServeMux sh)).
        (hosts (ServeMux sh) \<and> pm k (Host req @ Path req)) \<or> pm k (Path req)"
      by (auto simp: key_matches_def)
    from ServeMux_handler_some[OF ex] obtain k e where
      ke: "(k, e) \<in> set (mux_m (ServeMux sh))" and km: "key_matches pm (ServeMux sh) req k"
      and sel: "ServeMux_handler pm (ServeMux sh) (Host req) (Path req) = (entry_h e, entry_pattern e)"
      by (auto simp: key_matches_def)
    note ie = inv_entry[OF inv ke]
    show ?thesis
    proof (cases "pattern_handlers sh k")
      case None
      then obtain url where u: "entry_h e = RedirectHandler url StatusMovedPermanently"
        using ie by auto
      have r: "ServeHTTP pm sh req = Redirect url 301"
        unfolding s sel u by (simp add: StatusMovedPermanently_def)
      have third: "\<exists>k e. (k, e) \<in> set (mux_m (ServeMux sh)) \<and> key_matches pm (ServeMux sh) req k \<and>
            ServeMux_handler pm (ServeMux sh) (Host req) (Path req) = (entry_h e, entry_pattern e) \<and>
            (\<forall>n. pattern_handlers sh k = Some n \<longrightarrow>
               (handlers (store sh n) (Method req) = None \<longrightarrow>
                  ServeHTTP pm sh req = HttpError ''405 method not allowed'' 405) \<and>
               (\<forall>h. handlers (store sh n) (Method req) = Some h \<longrightarrow>
                  ServeHTTP pm sh req = Delegated h)) \<and>
            (pattern_handlers sh k = None \<longrightarrow> (\<exists>url. ServeHTTP pm sh req = Redirect url 301))"
        using ke km sel None r by (intro exI[of _ k] exI[of _ e]) simp
      have no405: "\<not> (\<exists>n pat. ServeMux_handler pm (ServeMux sh) (Host req) (Path req) = (NodeRef n, pat) \<and>
         handlers (store sh n) (Method req) = None)"
        unfolding sel u by simp
      show ?thesis using True some uri cl third no405 unfolding r by auto
    next
      case (Some n)
      then have u: "entry_h e = NodeRef n" using ie by auto
      have r: "ServeHTTP pm sh req =
          (case handlers (store sh n) (Method req) of
             None \<Rightarrow> HttpError ''405 method not allowed'' 405 | Some h \<Rightarrow> Delegated h)"
        unfolding s sel u by (simp add: node_ServeHTTP_cases)
      have third: "\<exists>k e. (k, e) \<in> set (mux_m (ServeMux sh)) \<and> key_matches pm (ServeMux sh) req k \<and>
            ServeMux_handler pm (ServeMux sh) (Host req) (Path req) = (entry_h e, entry_pattern e) \<and>
            (\<forall>n. pattern_handlers sh k = Some n \<longrightarrow>
               (handlers (store sh n) (Method req) = None \<longrightarrow>
                  ServeHTTP pm sh req = HttpError ''405 method not allowed'' 405) \<and>
               (\<forall>h. handlers (store sh n) (Method req) = Some h \<longrightarrow>
                  ServeHTTP pm sh req = Delegated h)) \<and>
            (pattern_handlers sh k = None \<longrightarrow> (\<exists>url. ServeHTTP pm sh req = Redirect url 301))"
        using ke km sel Some r by (intro exI[of _ k] exI[of _ e]) simp
      have not404: "\<not> (\<exists>m. ServeHTTP pm sh req = HttpError m 404)"
        unfolding r by (simp split: option.splits)
      have iff405: "(\<exists>m. ServeHTTP pm sh req = HttpError m 405) \<longleftrightarrow>
          (\<exists>n pat. ServeMux_handler pm (ServeMux sh) (Host req) (Path req) = (NodeRef n, pat) \<and>
             handlers (store sh n) (Method req) = None)"
        unfolding r sel u by (auto split: option.splits)
      show ?thesis using True some uri cl third not404 iff405 by blast
    qed
  qed
qed

theorem ServeHTTP_not_found_or_not_allowed_witness:
  "router_inv static_router \<and>
   ServeHTTP pathMatch static_router (request_for ''GET'' ''/nowhere'') =
     HttpError ''404 page not found'' 404 \<and>
   ServeHTTP pathMatch static_router (request_for ''PUT'' ''/api/users'') =
     HttpError ''405 method not allowed'' 405 \<and>
   ServeHTTP pathMatch static_router (request_for ''GET'' ''/api/users'') = Delegated 1 \<and>
   ServeHTTP pathMatch static_router (request_for ''GET'' ''/api/static/logo.png'') = Delegated 2 \<and>
   ServeHTTP pathMatch static_router (request_for ''GET'' ''/api/static'') =
     Redirect ''/api/static/'' 301 \<and>
   ServeHTTP pathMatch static_router (request_for ''GET'' ''/api/../api//users'') =
     Redirect ''/api/users'' 301 \<and>
   ServeHTTP pathMatch static_router (request_for ''OPTIONS'' ''*'') = WriteHeader 400"
proof -
  note inv = router_inv_static
  have d: "direct (request_for ''GET'' ''/nowhere'')" "direct (request_for ''PUT'' ''/api/users'')"
    "direct (request_for ''GET'' ''/api/users'')" "direct (request_for ''GET'' ''/api/static/logo.png'')"
    "direct (request_for ''GET'' ''/api/static'')"
    by (simp_all add: direct_def request_for_def cleanPath_def path_Clean_def Let_def)
  have "ServeHTTP pathMatch static_router (request_for ''GET'' ''/nowhere'') =
     HttpError ''404 page not found'' 404"
    using ServeHTTP_not_found_or_not_allowed[OF inv, of "request_for ''GET'' ''/nowhere''" pathMatch] d
    by (simp add: static_router_def key_matches_def pathMatch_def request_for_def)
  moreover have "ServeHTTP pathMatch static_router (request_for ''PUT'' ''/api/users'') =
     HttpError ''405 method not allowed'' 405"
    using ServeHTTP_not_found_or_not_allowed[OF inv, of "request_for ''PUT'' ''/api/users''" pathMatch]
    by (simp add: serve_defs static_router_def)
  moreover have "ServeHTTP pathMatch static_router (request_for ''GET'' ''/api/users'') = Delegated 1"
    using ServeHTTP_not_found_or_not_allowed[OF inv, of "request_for ''GET'' ''/api/users''" pathMatch]
    by (simp add: serve_defs static_router_def)
  moreover have "ServeHTTP pathMatch static_router (request_for ''GET'' ''/api/static/logo.png'') = Delegated 2"
    using ServeHTTP_not_found_or_not_allowed[OF inv, of "request_for ''GET'' ''/api/static/logo.png''" pathMatch]
    by (simp add: serve_defs static_router_def)
  moreover have "ServeHTTP pathMatch static_router (request_for ''GET'' ''/api/static'') =
     Redirect ''/api/static/'' 301"
    using ServeHTTP_not_found_or_not_allowed[OF inv, of "request_for ''GET'' ''/api/static''" pathMatch]
    by (simp add: serve_defs static_router_def)
  moreover have "ServeHTTP pathMatch static_router (request_for ''GET'' ''/api/../api//users'') =
     Redirect ''/api/users'' 301"
    using ServeHTTP_not_found_or_not_allowed[OF inv, of "request_for ''GET'' ''/api/../api//users''" pathMatch]
    by (simp add: request_for_def cleanPath_def path_Clean_def Let_def)
  moreover have "ServeHTTP pathMatch static_router (request_for ''OPTIONS'' ''*'') = WriteHeader 400"
    using ServeHTTP_not_found_or_not_allowed[OF inv, of "request_for ''OPTIONS'' ''*''" pathMatch]
    by (simp add: request_for_def)
  ultimately show ?thesis using inv by blast
qed


section \<open>Properties of component dispatch\<close>

subsection \<open>The source's loops and the specification's walk\<close>

lemma rev_enumerate_take_Suc:
  "n < length hs \<Longrightarrow>
     rev (enumerate 0 (take (Suc n) hs)) = (n, hs ! n) # rev (enumerate 0 (take n hs))"
  by (simp add: take_Suc_conv_app_nth enumerate_append_eq)

lemma handle_loop_walk:
  "n \<le> length (resourceHandlers env) \<Longrightarrow>
     handle_loop n c env =
       (case walk_chain (rev (enumerate 0 (take n (resourceHandlers env)))) c (ServerHandler env) of
          (sh, evs) \<Rightarrow> env\<lparr>ServerHandler := sh, trace := trace env @ evs\<rparr>)"
proof (induction n arbitrary: env)
  case 0
  then show ?case by simp
next
  case (Suc n)
  obtain ok sh where r: "(resourceHandlers env ! n) c (ServerHandler env) = (ok, sh)"
    by (cases "(resourceHandlers env ! n) c (ServerHandler env)")
  let ?env' = "env\<lparr>ServerHandler := sh, trace := trace env @ [HandlerCall n c ok]\<rparr>"
  have n: "n < length (resourceHandlers env)" using Suc.prems by simp
  show ?case
  proof (cases ok)
    case True
    then show ?thesis using r n by (simp add: rev_enumerate_take_Suc)
  next
    case False
    have "handle_loop n c ?env' =
       (case walk_chain (rev (enumerate 0 (take n (resourceHandlers ?env')))) c (ServerHandler ?env') of
          (sh', evs) \<Rightarrow> ?env'\<lparr>ServerHandler := sh', trace := trace ?env' @ evs\<rparr>)"
      using Suc.IH[of ?env'] n by simp
    then show ?thesis using r n False
      by (simp add: rev_enumerate_take_Suc split: prod.splits)
  qed
qed

lemma handle_walk:
  "handle c env =
     (case walk_chain (most_recent_first (resourceHandlers env)) c (ServerHandler env) of
        (sh, evs) \<Rightarrow> env\<lparr>ServerHandler := sh, trace := trace env @ evs\<rparr>)"
  by (simp add: handle_def handle_loop_walk most_recent_first_def)

lemma foldl_handle_spec:
  "foldl (\<lambda>e c. handle c e) env cs =
     (case dispatch_spec (most_recent_first (resourceHandlers env)) cs (ServerHandler env) of
        (sh, evs) \<Rightarrow> env\<lparr>ServerHandler := sh, trace := trace env @ evs\<rparr>)"
proof (induction cs arbitrary: env)
  case Nil
  then show ?case by simp
next
  case (Cons c cs)
  obtain sh evs
    where w: "walk_chain (most_recent_first (resourceHandlers env)) c (ServerHandler env) = (sh, evs)"
    by (cases "walk_chain (most_recent_first (resourceHandlers env)) c (ServerHandler env)")
  let ?env' = "env\<lparr>ServerHandler := sh, trace := trace env @ evs\<rparr>"
  have "handle c env = ?env'" using w by (simp add: handle_walk)
  then show ?case using Cons.IH[of ?env'] w
    by (simp split: prod.splits)
qed

lemma components_dispatch_all: "components (dispatch_all env) = components env"
  by (simp add: dispatch_all_def foldl_handle_spec split: prod.splits)

subsection \<open>One outcome for each component\<close>

lemma outcomes_append: "outcomes (xs @ ys) = outcomes xs @ outcomes ys"
  by (simp add: outcomes_def map_filter_def)

lemma outcomes_Cons:
  "outcomes (x # xs) = (case outcome_of x of None \<Rightarrow> outcomes xs | Some y \<Rightarrow> y # outcomes xs)"
  by (simp add: outcomes_def map_filter_def split: option.splits)

lemma outcomes_walk_chain: "\<exists>w. outcomes (snd (walk_chain chain c sh)) = [(c, w)]"
proof (induction chain arbitrary: sh)
  case Nil
  then show ?case by (simp add: outcomes_def map_filter_def)
next
  case (Cons a chain)
  obtain i h where a: "a = (i, h)" by (cases a)
  obtain ok sh' where r: "h c sh = (ok, sh')" by (cases "h c sh")
  show ?case
  proof (cases ok)
    case True
    then show ?thesis using a r by (simp add: outcomes_def map_filter_def)
  next
    case False
    from Cons.IH[of sh'] obtain w where "outcomes (snd (walk_chain chain c sh')) = [(c, w)]" ..
    then show ?thesis using a r False
      by (auto simp add: outcomes_Cons split: prod.splits)
  qed
qed

lemma outcomes_dispatch_spec: "map fst (outcomes (snd (dispatch_spec chain cs sh))) = cs"
proof (induction cs arbitrary: sh)
  case Nil
  then show ?case by (simp add: outcomes_def map_filter_def)
next
  case (Cons c cs)
  obtain sh' evs where w: "walk_chain chain c sh = (sh', evs)" by (cases "walk_chain chain c sh")
  from outcomes_walk_chain[of chain c sh] w obtain x where x: "outcomes evs = [(c, x)]" by auto
  show ?case using w x Cons.IH[of sh']
    by (auto simp add: outcomes_append split: prod.splits)
qed

subsection \<open>The order of the calls\<close>

lemma most_recent_first_snoc:
  "most_recent_first (ys @ [y]) = (length ys, y) # most_recent_first ys"
  by (simp add: most_recent_first_def enumerate_append_eq)

lemma walk_chain_shape:
  "\<exists>k\<le>length hs. snd (walk_chain (most_recent_first hs) c sh) =
      map (\<lambda>j. HandlerCall j c False) (rev [k..<length hs]) @
      [if k = 0 then LogWarn c else HandlerCall (k - 1) c True]"
proof (induction hs arbitrary: sh rule: rev_induct)
  case Nil
  then show ?case by (simp add: most_recent_first_def)
next
  case (snoc y ys)
  obtain ok sh' where r: "y c sh = (ok, sh')" by (cases "y c sh")
  show ?case
  proof (cases ok)
    case True
    have "snd (walk_chain (most_recent_first (ys @ [y])) c sh) =
      map (\<lambda>j. HandlerCall j c False) (rev [Suc (length ys)..<length (ys @ [y])]) @
      [if Suc (length ys) = 0 then LogWarn c else HandlerCall (Suc (length ys) - 1) c True]"
      using r True by (simp add: most_recent_first_snoc)
    then show ?thesis by (intro exI[of _ "Suc (length ys)"]) simp
  next
    case False
    from snoc.IH[of sh'] obtain k where k: "k \<le> length ys"
      and e: "snd (walk_chain (most_recent_first ys) c sh') =
        map (\<lambda>j. HandlerCall j c False) (rev [k..<length ys]) @
        [if k = 0 then LogWarn c else HandlerCall (k - 1) c True]" by blast
    have "snd (walk_chain (most_recent_first (ys @ [y])) c sh) =
        HandlerCall (length ys) c False # snd (walk_chain (most_recent_first ys) c sh')"
      using r False by (simp add: most_recent_first_snoc split: prod.splits)
    also have "\<dots> = map (\<lambda>j. HandlerCall j c False) (rev [k..<length (ys @ [y])]) @
        [if k = 0 then LogWarn c else HandlerCall (k - 1) c True]"
      using k e by simp
    finally show ?thesis using k by (intro exI[of _ k]) simp
  qed
qed

lemma walk_chain_last_claims:
  "hs \<noteq> [] \<Longrightarrow> fst (last hs c sh) \<Longrightarrow>
     walk_chain (most_recent_first hs) c sh =
       (snd (last hs c sh), [HandlerCall (length hs - 1) c True])"
proof (cases hs rule: rev_cases)
  case Nil
  assume "hs \<noteq> []" then show ?thesis using Nil by simp
next
  case (snoc ys y)
  assume "fst (last hs c sh)"
  then show ?thesis using snoc
    by (cases "y c sh") (simp add: most_recent_first_snoc)
qed

lemma trace_handle:
  "trace (handle c env) =
     trace env @ snd (walk_chain (most_recent_first (resourceHandlers env)) c (ServerHandler env))"
  by (simp add: handle_walk split: prod.splits)

text \<open>
  C3: the dispatch of \<open>onStarting\<close> is the dispatch the specification describes, over
  the chain taken from the most recently added handler to the earliest, followed by the
  listing; its events hold one outcome (a claim or the warning) for each registered
  component, in the order of registration. For one component, the handlers are called
  from the last position down, every call but the last answered \<open>false\<close>, and the calls
  end with the first handler that claims the component or, after position \<open>0\<close>, with
  the warning; in particular, when the handler added last claims the component, no
  other handler is called.
\<close>

theorem onStarting_dispatch:
  "(\<exists>sh evs.
      dispatch_spec (most_recent_first (resourceHandlers env)) (components env) (ServerHandler env)
        = (sh, evs) \<and>
      onStarting env = logResources (env\<lparr>ServerHandler := sh, trace := trace env @ evs\<rparr>) \<and>
      map fst (outcomes evs) = components env) \<and>
   (\<exists>k\<le>length (resourceHandlers env).
      trace (handle c env) =
        trace env @
        map (\<lambda>j. HandlerCall j c False) (rev [k..<length (resourceHandlers env)]) @
        [if k = 0 then LogWarn c else HandlerCall (k - 1) c True]) \<and>
   (resourceHandlers env \<noteq> [] \<and> fst (last (resourceHandlers env) c (ServerHandler env)) \<longrightarrow>
      trace (handle c env) =
        trace env @ [HandlerCall (length (resourceHandlers env) - 1) c True])"
proof (intro conjI impI)
  obtain sh evs
    where d: "dispatch_spec (most_recent_first (resourceHandlers env)) (components env)
                (ServerHandler env) = (sh, evs)"
    by (cases "dispatch_spec (most_recent_first (resourceHandlers env)) (components env)
                (ServerHandler env)")
  have "onStarting env = logResources (env\<lparr>ServerHandler := sh, trace := trace env @ evs\<rparr>)"
    using d by (simp add: onStarting_def dispatch_all_def foldl_handle_spec)
  moreover have "map fst (outcomes evs) = components env"
    using outcomes_dispatch_spec[of "most_recent_first (resourceHandlers env)" "components env"
        "ServerHandler env"] d by simp
  ultimately show "\<exists>sh evs.
      dispatch_spec (most_recent_first (resourceHandlers env)) (components env) (ServerHandler env)
        = (sh, evs) \<and>
      onStarting env = logResources (env\<lparr>ServerHandler := sh, trace := trace env @ evs\<rparr>) \<and>
      map fst (outcomes evs) = components env"
    using d by blast
next
  show "\<exists>k\<le>length (resourceHandlers env).
      trace (handle c env) =
        trace env @
        map (\<lambda>j. HandlerCall j c False) (rev [k..<length (resourceHandlers env)]) @
        [if k = 0 then LogWarn c else HandlerCall (k - 1) c True]"
    using walk_chain_shape[of "resourceHandlers env" c "ServerHandler env"]
    by (simp add: trace_handle)
next
  assume "resourceHandlers env \<noteq> [] \<and> fst (last (resourceHandlers env) c (ServerHandler env))"
  then show "trace (handle c env) =
        trace env @ [HandlerCall (length (resourceHandlers env) - 1) c True]"
    by (simp add: trace_handle walk_chain_last_claims)
qed

lemma trace_onStarting_example:
  "trace (onStarting example_env) =
     [HandlerCall 1 (Resource ''UserResource'' ''GET'' ''/users'') True,
      HandlerCall 1 (Plain ''HealthCheck'') False,
      HandlerCall 0 (Plain ''HealthCheck'') False,
      LogWarn (Plain ''HealthCheck''),
      HandlerCall 1 (Resource ''ItemResource'' ''POST'' ''/items'') False,
      HandlerCall 0 (Resource ''ItemResource'' ''POST'' ''/items'') True,
      listing_of [(''GET'', ''/api/users'', ''UserResource''),
                  (''POST'', ''/api/items'', ''ItemResource'')]]"
  by (simp add: onStarting_def dispatch_all_def handle_def logResources_def example_env_def
      claim_resources_def claim_get_resources_def numeral_2_eq_2 listing_of_def format_entry_def
      format_resource_def PathPrefix_def example_router_def)

theorem onStarting_dispatch_witness:
  "resourceHandlers example_env \<noteq> [] \<and>
   fst (last (resourceHandlers example_env) (Resource ''UserResource'' ''GET'' ''/users'')
          (ServerHandler example_env)) \<and>
   trace (handle (Resource ''UserResource'' ''GET'' ''/users'') example_env) =
     [HandlerCall 1 (Resource ''UserResource'' ''GET'' ''/users'') True] \<and>
   trace (handle (Plain ''HealthCheck'') example_env) =
     [HandlerCall 1 (Plain ''HealthCheck'') False, HandlerCall 0 (Plain ''HealthCheck'') False,
      LogWarn (Plain ''HealthCheck'')] \<and>
   map fst (outcomes (butlast (trace (onStarting example_env)))) = components example_env"
proof -
  have a: "resourceHandlers example_env \<noteq> [] \<and>
      fst (last (resourceHandlers example_env) (Resource ''UserResource'' ''GET'' ''/users'')
          (ServerHandler example_env))"
    by (simp add: example_env_def claim_get_resources_def)
  have b: "trace (handle (Resource ''UserResource'' ''GET'' ''/users'') example_env) =
     [HandlerCall 1 (Resource ''UserResource'' ''GET'' ''/users'') True]"
    using onStarting_dispatch[of example_env "Resource ''UserResource'' ''GET'' ''/users''"] a
    by (simp add: example_env_def)
  have c: "trace (handle (Plain ''HealthCheck'') example_env) =
     [HandlerCall 1 (Plain ''HealthCheck'') False, HandlerCall 0 (Plain ''HealthCheck'') False,
      LogWarn (Plain ''HealthCheck'')]"
    using onStarting_dispatch[of example_env "Plain ''HealthCheck''"]
    by (simp add: handle_def example_env_def claim_resources_def claim_get_resources_def
        numeral_2_eq_2)
  have comps: "components example_env =
      [Resource ''UserResource'' ''GET'' ''/users'', Plain ''HealthCheck'',
       Resource ''ItemResource'' ''POST'' ''/items'']"
    by (simp add: example_env_def)
  have d: "map fst (outcomes (butlast (trace (onStarting example_env)))) = components example_env"
    by (simp add: trace_onStarting_example comps outcomes_def map_filter_def)
  show ?thesis using a b c d by simp
qed

subsection \<open>The endpoint listing\<close>

lemma logResources_loop_eq:
  "logResources_loop prefix cs buf =
     buf @ concat (map format_entry (List.map_filter (resource_entry prefix) cs))"
proof (induction prefix cs buf rule: logResources_loop.induct)
  case (1 prefix buf)
  then show ?case by (simp add: map_filter_def)
next
  case (2 prefix ty m p cs buf)
  then show ?case by (simp add: map_filter_def format_entry_def format_resource_def)
next
  case (3 prefix ty cs buf)
  then show ?case by (simp add: map_filter_def)
qed

text \<open>
  C9, as the specification words it, lists the claimed components only. In the source
  the listing does not look at what dispatch did: in an environment without resource
  handlers a resource is claimed by nobody, is warned about, and is listed.
\<close>

theorem listing_has_unclaimed_resource:
  "\<not> claimed (trace (onStarting bare_env)) (Resource ''UserResource'' ''GET'' ''/users'') \<and>
   trace (onStarting bare_env) =
     [LogWarn (Resource ''UserResource'' ''GET'' ''/users''),
      listing_of [(''GET'', ''/api/users'', ''UserResource'')]]"
  by (simp add: claimed_def onStarting_def dispatch_all_def handle_def logResources_def
      bare_env_def listing_of_def format_entry_def format_resource_def PathPrefix_def
      example_router_def)

text \<open>
  C9 (amended): after all components are dispatched, the listing that \<open>onStarting\<close> logs
  last holds one entry of verb, full path (the router's prefix followed by the
  component's path) and type name for every registered component that implements
  \<open>Resource\<close>, in the order of registration and whether or not a resource handler
  claimed it, and no entry for any other component.
\<close>

theorem listing_is_by_type:
  "trace (onStarting env) =
     trace (dispatch_all env) @
     [listing_of (List.map_filter
        (resource_entry (PathPrefix (ServerHandler (dispatch_all env)))) (components env))]"
  by (simp add: onStarting_def logResources_def listing_of_def logResources_loop_eq
      components_dispatch_all)

theorem listing_is_by_type_witness:
  "trace (onStarting example_env) =
     trace (dispatch_all example_env) @
     [listing_of [(''GET'', ''/api/users'', ''UserResource''),
                  (''POST'', ''/api/items'', ''ItemResource'')]] \<and>
   \<not> claimed (trace (dispatch_all bare_env)) (Resource ''UserResource'' ''GET'' ''/users'') \<and>
   trace (onStarting bare_env) =
     trace (dispatch_all bare_env) @ [listing_of [(''GET'', ''/api/users'', ''UserResource'')]]"
proof -
  have p: "PathPrefix (ServerHandler (dispatch_all example_env)) = ''/api''"
    "PathPrefix (ServerHandler (dispatch_all bare_env)) = ''/api''"
    by (simp_all add: dispatch_all_def handle_def example_env_def bare_env_def
        claim_resources_def claim_get_resources_def numeral_2_eq_2 PathPrefix_def
        example_router_def)
  have c: "\<not> claimed (trace (dispatch_all bare_env)) (Resource ''UserResource'' ''GET'' ''/users'')"
    by (simp add: claimed_def dispatch_all_def handle_def bare_env_def)
  show ?thesis
    using listing_is_by_type[of example_env] listing_is_by_type[of bare_env] p c
    by (simp add: map_filter_def example_env_def bare_env_def)
qed

section \<open>Properties of the managed server\<close>

subsection \<open>Start\<close>

lemma Start_loop_error:
  "k < n \<Longrightarrow>
     Start_loop n (replicate k (FromErrorChan None) @ FromErrorChan (Some e) # rest) = Some (Some e)"
  by (induction k arbitrary: n) (auto simp: gr0_conv_Suc Suc_less_eq2)

lemma Start_loop_interrupt:
  "k < n \<Longrightarrow>
     Start_loop n (replicate k (FromErrorChan None) @ FromSigChan Interrupt # rest) = Some None"
  by (induction k arbitrary: n) (auto simp: gr0_conv_Suc Suc_less_eq2)

lemma Start_loop_all_nil: "Start_loop n (replicate n (FromErrorChan None) @ rest) = Some None"
  by (induction n) auto

lemma Start_loop_short: "k < n \<Longrightarrow> Start_loop n (replicate k (FromErrorChan None)) = None"
  by (induction k arbitrary: n) (auto simp: gr0_conv_Suc Suc_less_eq2)

text \<open>
  C4: with \<open>n\<close> connectors, if the first message that is not a \<open>nil\<close> result is a
  connector's error and fewer than \<open>n\<close> results came before it, \<open>Start\<close> returns that
  error, whatever would follow; if it is the interrupt signal, \<open>Start\<close> returns \<open>nil\<close>,
  whatever would follow; if the first \<open>n\<close> messages are \<open>nil\<close> results, \<open>Start\<close> returns
  \<open>nil\<close>; and after fewer than \<open>n\<close> \<open>nil\<close> results and nothing else it is still waiting.
\<close>

theorem Start_first_event_decides:
  fixes e :: 'e and rest :: "'e message list"
  assumes "length (Connectors server) = n"
  shows
  "(k < n \<longrightarrow>
      Start server (replicate k (FromErrorChan None) @ FromErrorChan (Some e) # rest) = Some (Some e)) \<and>
   (k < n \<longrightarrow>
      Start server (replicate k (FromErrorChan None) @ FromSigChan Interrupt # rest) = Some None) \<and>
   Start server (replicate n (FromErrorChan None) @ rest) = Some None \<and>
   (k < n \<longrightarrow> Start server (replicate k (FromErrorChan None) :: 'e message list) = None)"
  using assms
  by (simp add: Start_def Start_loop_error Start_loop_interrupt Start_loop_all_nil Start_loop_short)

theorem Start_first_event_decides_witness:
  "length (Connectors example_server) = 3 \<and>
   Start example_server
     [FromErrorChan None, FromErrorChan (Some ''address already in use''), FromErrorChan None]
     = Some (Some ''address already in use'') \<and>
   Start example_server
     [FromErrorChan None, FromSigChan Interrupt, FromErrorChan (Some ''address already in use'')]
     = Some None \<and>
   Start example_server
     [FromErrorChan None, FromErrorChan None, FromErrorChan (None :: string option)] = Some None \<and>
   Start example_server [FromErrorChan (None :: string option)] = None"
proof -
  have n: "length (Connectors example_server) = 3" by (simp add: example_server_def)
  have r: "replicate (Suc 0) x = [x]" "replicate 3 x = [x, x, x]" for x :: "string message"
    by (simp_all add: numeral_3_eq_3)
  show ?thesis
    using n
      Start_first_event_decides[OF n, of 1 "''address already in use''" "[FromErrorChan None]"]
      Start_first_event_decides[OF n, of 1 "''x''" "[FromErrorChan (Some ''address already in use'')]"]
      Start_first_event_decides[OF n, of 1 "''x''" "[]"]
    by (simp add: r)
qed

text \<open>
  C5: a server without connectors returns \<open>nil\<close> from \<open>Start\<close> whatever messages are or
  are not there to receive; it waits for none.
\<close>

theorem Start_no_connectors:
  "Connectors server = [] \<Longrightarrow> Start server ms = Some None"
  by (simp add: Start_def)

theorem Start_no_connectors_witness:
  "Connectors (NewServer :: nat DefaultServer) = [] \<and>
   Start (NewServer :: nat DefaultServer) ([] :: string message list) = Some None"
proof -
  have e: "Connectors (NewServer :: nat DefaultServer) = []" by (simp add: NewServer_def)
  show ?thesis using e Start_no_connectors[OF e, of "[] :: string message list"] by simp
qed

subsection \<open>Stop\<close>

lemma Stop_loop_close_all:
  "Stop_loop close cs x warns =
     (case close_all close (List.map_filter listener cs) x of (x', errs) \<Rightarrow> (x', warns @ errs))"
proof (induction cs arbitrary: x warns)
  case Nil
  then show ?case by (simp add: map_filter_def)
next
  case (Cons c cs)
  show ?case
  proof (cases "listener c")
    case None
    then show ?thesis using Cons.IH[of x warns]
      by (simp add: connector_Stop_def map_filter_def)
  next
    case (Some l)
    obtain r x' where c: "close l x = (r, x')" by (cases "close l x")
    show ?thesis using Some c Cons.IH[of x']
      by (cases r) (auto simp add: connector_Stop_def map_filter_def split: prod.splits)
  qed
qed

text \<open>
  C6: \<open>Stop\<close> returns \<open>nil\<close>; it closes the listener of every connector that has one,
  in the order of the connectors, each whatever the earlier ones answered, and the
  errors met are the warnings, in that order. A second \<open>Stop\<close>, on the state the first
  one left, returns \<open>nil\<close> as well. The \<open>Stop\<close> of a connector without listener does
  nothing and returns \<open>nil\<close>.
\<close>

theorem Stop_best_effort:
  "Stop close server x = (None, close_all close (open_listeners server) x) \<and>
   fst (Stop close server (fst (snd (Stop close server x)))) = None \<and>
   (listener connector = None \<longrightarrow> connector_Stop close connector x = (None, x))"
  by (simp add: Stop_def Stop_loop_close_all open_listeners_def connector_Stop_def
      split: prod.splits)

theorem Stop_best_effort_witness:
  "Stop example_close example_server [0] =
     (None, [0, 0, 2], [''use of closed network connection'']) \<and>
   Stop example_close example_server [0, 0, 2] =
     (None, [0, 0, 2, 0, 2],
      [''use of closed network connection'', ''use of closed network connection'']) \<and>
   listener \<lparr>Addr = '':8081'', listener = (None :: nat option)\<rparr> = None \<and>
   connector_Stop example_close \<lparr>Addr = '':8081'', listener = None\<rparr> [0] = (None, [0])"
  using Stop_best_effort[of example_close example_server "[0]"
      "\<lparr>Addr = '':8081'', listener = None\<rparr>"]
    Stop_best_effort[of example_close example_server "[0, 0, 2]"
      "\<lparr>Addr = '':8081'', listener = None\<rparr>"]
  by (simp add: open_listeners_def example_server_def example_close_def map_filter_def)

section \<open>Properties of the server command\<close>

text \<open>
  C8, as the specification words it, has the banner printed after the bundles and the
  application have run. In the source the banner is printed as soon as the server is
  built: the calls of a run in which everything succeeds are not in the specification's
  order, and a run in which the bundles fail has printed the banner already.
\<close>

theorem Run_banner_before_bundles:
  "calls (fst (Run all_succeed)) \<noteq> spec_order \<and>
   calls (fst (Run all_succeed)) =
     [ConfiguredCommandRun, EnvironmentCommandRun, BuildServer, PrintBanner, BootstrapRun,
      ApplicationRun, SetStarting, ServerStart, ServerStop, SetStopped] \<and>
   PrintBanner \<in> set (fst (Run (all_succeed\<lparr>bundles := Some ''no such bundle''\<rparr>)))"
  by (simp add: Run_def calls_def spec_order_def all_succeed_def)

text \<open>
  C8 (amended): \<open>Run\<close> makes its calls in this order: parse and validate the
  configuration, build the environment, build the server, print the banner, run the
  bundles, run the application, mark the environment starting, start the server, stop
  the server, mark the environment stopped. When parsing the configuration, building
  the environment, building the server, running the bundles or running the application
  fails, the calls end with that one and its error is returned; the banner has been
  printed by then exactly when the server was built. Otherwise all the calls are made, the stop of the server and the stopped mark
  included whatever the start returned, and the result of the start is returned.
\<close>

theorem Run_order:
  "calls (fst (Run out)) =
     (case first_failure out of Some (k, e) \<Rightarrow> take k run_order | None \<Rightarrow> run_order) \<and>
   snd (Run out) = (case first_failure out of Some (k, e) \<Rightarrow> Some e | None \<Rightarrow> start out)"
  by (simp add: Run_def calls_def first_failure_def run_order_def split: option.splits)

theorem Run_order_witness:
  "calls (fst (Run (all_succeed\<lparr>start := Some ''address already in use''\<rparr>))) =
     [ConfiguredCommandRun, EnvironmentCommandRun, BuildServer, PrintBanner, BootstrapRun,
      ApplicationRun, SetStarting, ServerStart, ServerStop, SetStopped] \<and>
   snd (Run (all_succeed\<lparr>start := Some ''address already in use''\<rparr>)) =
     Some ''address already in use'' \<and>
   calls (fst (Run (all_succeed\<lparr>application := Some ''no database''\<rparr>))) =
     [ConfiguredCommandRun, EnvironmentCommandRun, BuildServer, PrintBanner, BootstrapRun,
      ApplicationRun] \<and>
   snd (Run (all_succeed\<lparr>application := Some ''no database''\<rparr>)) = Some ''no database''"
  using Run_order[of "all_succeed\<lparr>start := Some ''address already in use''\<rparr>"]
    Run_order[of "all_succeed\<lparr>application := Some ''no database''\<rparr>"]
  by (simp add: first_failure_def run_order_def all_succeed_def)

end
